theory Spec2Isabelle
  imports Main "HOL-Library.List_Lexorder" "HOL-Library.Product_Lexorder"
begin

section \<open>Python values: strings, the interpreter's tables\<close>

text \<open>
  A Python \<^verbatim>\<open>str\<close> is a sequence of Unicode code points; it is modelled as a list of
  integers (the code points). \<open>u\<close> turns an ASCII literal into such a list; the Korean literals of
  the sources are written as their code points.
\<close>

type_synonym ustr = "int list"

definition u :: "string \<Rightarrow> ustr" where
  "u s = map of_char s"

text \<open>\<^verbatim>\<open>str.isspace\<close> for one character, which is also the class \<^verbatim>\<open>\s\<close> of \<^verbatim>\<open>re\<close>.\<close>

definition isspace :: "int \<Rightarrow> bool" where
  "isspace c \<longleftrightarrow>
     (9 \<le> c \<and> c \<le> 13) \<or> (28 \<le> c \<and> c \<le> 32) \<or> c = 133 \<or> c = 160 \<or> c = 5760 \<or>
     (8192 \<le> c \<and> c \<le> 8202) \<or> c = 8232 \<or> c = 8233 \<or> c = 8239 \<or> c = 8287 \<or> c = 12288"

definition lstrip :: "ustr \<Rightarrow> ustr" where
  "lstrip s = dropWhile isspace s"

definition rstrip :: "ustr \<Rightarrow> ustr" where
  "rstrip s = rev (dropWhile isspace (rev s))"

definition strip :: "ustr \<Rightarrow> ustr" where
  "strip s = rstrip (lstrip s)"

text \<open>\<^verbatim>\<open>s.startswith(p)\<close>, \<^verbatim>\<open>p in s\<close> and \<^verbatim>\<open>sep.join(xs)\<close>.\<close>

definition startswith :: "ustr \<Rightarrow> ustr \<Rightarrow> bool" where
  "startswith s p \<longleftrightarrow> take (length p) s = p"

fun str_in :: "ustr \<Rightarrow> ustr \<Rightarrow> bool" where
  "str_in p [] = (p = [])"
| "str_in p (c # cs) = (startswith (c # cs) p \<or> str_in p cs)"

fun join :: "ustr \<Rightarrow> ustr list \<Rightarrow> ustr" where
  "join sep [] = []"
| "join sep [x] = x"
| "join sep (x # y # ys) = x @ sep @ join sep (y # ys)"

text \<open>\<^verbatim>\<open>str(n)\<close> for a non-negative integer.\<close>

fun digits_of :: "nat \<Rightarrow> nat \<Rightarrow> ustr" where
  "digits_of 0 n = []"
| "digits_of (Suc k) n = (if n < 10 then [48 + int n] else digits_of k (n div 10) @ [48 + int (n mod 10)])"

definition str_of_nat :: "nat \<Rightarrow> ustr" where
  "str_of_nat n = digits_of (Suc n) n"

text \<open>\<^verbatim>\<open>str(n)\<close> for a non-negative integer of any size, without counting down.\<close>

function str_of_int :: "int \<Rightarrow> ustr" where
  "str_of_int n = (if n < 10 then [48 + n] else str_of_int (n div 10) @ [48 + n mod 10])"
  by pat_completeness auto
termination
  by (relation "measure nat") auto

declare str_of_int.simps [simp del]

text \<open>
  What the sources take from the interpreter and its libraries and what depends on the
  Unicode tables or on the process is a parameter:
  \<^item> \<open>ci_eq a c\<close>: under \<^verbatim>\<open>re.IGNORECASE\<close> the literal \<open>a\<close> of a pattern matches the
    character \<open>c\<close> of the text;
  \<^item> \<open>str_lower\<close>: \<^verbatim>\<open>str.lower\<close>;
  \<^item> \<open>nd_zeros\<close>: the zero digits of the decimal digit runs of Unicode (each run is ten
    consecutive code points), which fixes \<^verbatim>\<open>\d\<close> and \<^verbatim>\<open>int\<close>;
  \<^item> \<open>set_order xs\<close>: the order in which this process iterates over the set built from
    the elements \<open>xs\<close> (for strings it depends on the hash seed of the process);
  \<^item> \<open>repr_str\<close>: \<^verbatim>\<open>repr\<close> of a string;
  \<^item> \<open>urljoin base url\<close>: \<^verbatim>\<open>urllib.parse.urljoin\<close>, which may raise;
  \<^item> \<open>urlparse url\<close>: the \<^verbatim>\<open>netloc\<close> and the \<^verbatim>\<open>path\<close> of \<^verbatim>\<open>urllib.parse.urlparse(url)\<close>,
    or \<open>None\<close> when it raises;
  \<^item> \<open>strftime_ymd y m d\<close>: what the C library's \<^verbatim>\<open>strftime\<close> gives for \<^verbatim>\<open>"%Y-%m-%d"\<close> (whether
    a year below 1000 is padded depends on the platform);
  \<^item> \<open>utc_offset t\<close>: the offset in seconds of local time from UTC at the instant \<open>t\<close>, in
    the time zone of the process (instants are counted in seconds from the start of the
    day before 0001-01-01, as \<^verbatim>\<open>datetime\<close> does internally).
\<close>

datatype pyexn = RecursionError | OtherError ustr

record pyenv =
  ci_eq :: "int \<Rightarrow> int \<Rightarrow> bool"
  str_lower :: "ustr \<Rightarrow> ustr"
  nd_zeros :: "int list"
  set_order :: "ustr list \<Rightarrow> ustr list"
  repr_str :: "ustr \<Rightarrow> ustr"
  urljoin :: "ustr \<Rightarrow> ustr \<Rightarrow> pyexn + ustr"
  urlparse :: "ustr \<Rightarrow> (ustr \<times> ustr) option"
  strftime_ymd :: "int \<Rightarrow> int \<Rightarrow> int \<Rightarrow> ustr"
  utc_offset :: "int \<Rightarrow> int"

definition isdecimal :: "pyenv \<Rightarrow> int \<Rightarrow> bool" where
  "isdecimal env c \<longleftrightarrow> (\<exists>z \<in> set (nd_zeros env). z \<le> c \<and> c < z + 10)"

text \<open>
  An environment for inputs made of ASCII and of caseless characters such as Hangul:
  on these, lower-casing touches the letters A to Z only. Its \<open>urljoin\<close> and \<open>urlparse\<close>
  are right for absolute URLs of the form \<^verbatim>\<open>http://host/path\<close> without query or fragment:
  joining returns the URL itself, and parsing splits it at the first \<^verbatim>\<open>/\<close> after the
  \<^verbatim>\<open>//\<close>. Its \<^verbatim>\<open>strftime\<close> is that of glibc, which does not pad the year, and its time zone
  is UTC. The two variants differ in the iteration order of sets alone.
\<close>

definition split_abs_url :: "ustr \<Rightarrow> (ustr \<times> ustr) option" where
  "split_abs_url url =
     (let rest = drop 2 (dropWhile (\<lambda>c. c \<noteq> 47) url)
      in Some (takeWhile (\<lambda>c. c \<noteq> 47) rest, dropWhile (\<lambda>c. c \<noteq> 47) rest))"

definition ascii_lower :: "int \<Rightarrow> int" where
  "ascii_lower c = (if 65 \<le> c \<and> c \<le> 90 then c + 32 else c)"

text \<open>
  \<^verbatim>\<open>repr\<close> of a string whose characters are below U+0100 or printable. The quote is
  the double quote (34) when the string holds a single quote (39) and no double quote,
  else the single quote. The quote and the backslash (92) are written with a backslash
  before them; tab, newline and carriage return as a backslash and \<^verbatim>\<open>t\<close>, \<^verbatim>\<open>n\<close>, \<^verbatim>\<open>r\<close>;
  the other characters that are not printable (below U+0020, U+007F to U+00A0, U+00AD) as
  a backslash, \<^verbatim>\<open>x\<close> and two lower-case hexadecimal digits.
\<close>

definition hex_digit :: "int \<Rightarrow> int" where
  "hex_digit d = (if d < 10 then 48 + d else 87 + d)"

definition repr_char :: "int \<Rightarrow> int \<Rightarrow> ustr" where
  "repr_char q c =
     (if c = q \<or> c = 92 then [92, c]
      else if c = 9 then [92, 116]
      else if c = 10 then [92, 110]
      else if c = 13 then [92, 114]
      else if c < 32 \<or> (127 \<le> c \<and> c \<le> 160) \<or> c = 173
           then [92, 120, hex_digit (c div 16), hex_digit (c mod 16)]
      else [c])"

definition py_repr :: "ustr \<Rightarrow> ustr" where
  "py_repr s =
     (let q = (if 39 \<in> set s \<and> 34 \<notin> set s then 34 else 39)
      in [q] @ concat (map (repr_char q) s) @ [q])"

definition zfill :: "nat \<Rightarrow> ustr \<Rightarrow> ustr" where
  "zfill w s = replicate (w - length s) 48 @ s"

definition glibc_strftime_ymd :: "int \<Rightarrow> int \<Rightarrow> int \<Rightarrow> ustr" where
  "glibc_strftime_ymd y m d =
     str_of_int y @ [45] @ zfill 2 (str_of_int m) @ [45] @ zfill 2 (str_of_int d)"

definition ascii_env :: pyenv where
  "ascii_env = \<lparr>ci_eq = (\<lambda>a c. ascii_lower a = ascii_lower c), str_lower = map ascii_lower,
     nd_zeros = [48], set_order = remdups, repr_str = py_repr,
     urljoin = (\<lambda>base url. Inr url), urlparse = split_abs_url,
     strftime_ymd = glibc_strftime_ymd, utc_offset = (\<lambda>t. 0)\<rparr>"

definition ascii_env2 :: pyenv where
  "ascii_env2 = ascii_env\<lparr>set_order := (\<lambda>xs. rev (remdups xs))\<rparr>"

section \<open>Regular expressions as the sources use them\<close>

text \<open>
  The patterns of the sources use literals, classes, \<^verbatim>\<open>\s\<close>, \<^verbatim>\<open>\d\<close>, greedy
  \<^verbatim>\<open>* + ? {m,n}\<close>, alternation, groups, a negative lookahead and \<^verbatim>\<open>$\<close>. \<open>rmatch\<close>
  lists, in the order in which the backtracking matcher of \<^verbatim>\<open>re\<close> tries them, the ways
  a pattern matches at the start of a text: each with the texts of its capturing groups
  and the rest of the text. The flag says whether \<^verbatim>\<open>re.IGNORECASE\<close> is set.
\<close>

datatype citem = Ch int | Space | Digit

fun citem_has :: "pyenv \<Rightarrow> citem \<Rightarrow> int \<Rightarrow> bool" where
  "citem_has env (Ch a) c = (a = c)"
| "citem_has env Space c = isspace c"
| "citem_has env Digit c = isdecimal env c"

datatype rx = Eps | Lit int | Cls bool "citem list" | Seq rx rx | Alt rx rx | Star rx | Opt rx
  | NLook rx | Cap rx | Eol

fun rmatch :: "pyenv \<Rightarrow> bool \<Rightarrow> rx \<Rightarrow> ustr \<Rightarrow> (ustr list \<times> ustr) list" where
  "rmatch env ic Eps s = [([], s)]"
| "rmatch env ic (Lit a) s =
     (case s of [] \<Rightarrow> []
      | c # t \<Rightarrow> if (if ic then ci_eq env a c else a = c) then [([], t)] else [])"
| "rmatch env ic (Cls neg items) s =
     (case s of [] \<Rightarrow> []
      | c # t \<Rightarrow> if (\<exists>i \<in> set items. citem_has env i c) \<noteq> neg then [([], t)] else [])"
| "rmatch env ic (Seq a b) s =
     concat (map (\<lambda>(g1, s1). map (\<lambda>(g2, s2). (g1 @ g2, s2)) (rmatch env ic b s1))
                 (rmatch env ic a s))"
| "rmatch env ic (Alt a b) s = rmatch env ic a s @ rmatch env ic b s"
| "rmatch env ic (Star a) s =
     concat (map (\<lambda>(g1, s1). if length s1 < length s
                              then map (\<lambda>(g2, s2). (g1 @ g2, s2)) (rmatch env ic (Star a) s1)
                              else [])
                 (rmatch env ic a s)) @ [([], s)]"
| "rmatch env ic (Opt a) s = rmatch env ic a s @ [([], s)]"
| "rmatch env ic (NLook a) s = (if rmatch env ic a s = [] then [([], s)] else [])"
| "rmatch env ic (Cap a) s =
     map (\<lambda>(g, s1). (take (length s - length s1) s # g, s1)) (rmatch env ic a s)"
| "rmatch env ic Eol s = (if s = [] \<or> s = [10] then [([], s)] else [])"

fun lits :: "ustr \<Rightarrow> rx" where
  "lits [] = Eps"
| "lits [c] = Lit c"
| "lits (c # d # cs) = Seq (Lit c) (lits (d # cs))"

fun seqs :: "rx list \<Rightarrow> rx" where
  "seqs [] = Eps"
| "seqs [a] = a"
| "seqs (a # b # bs) = Seq a (seqs (b # bs))"

fun alts :: "rx list \<Rightarrow> rx" where
  "alts [] = NLook Eps"
| "alts [a] = a"
| "alts (a # b # bs) = Alt a (alts (b # bs))"

definition plus :: "rx \<Rightarrow> rx" where
  "plus a = Seq a (Star a)"

definition rep4 :: "rx \<Rightarrow> rx" where
  "rep4 a = Seq a (Seq a (Seq a a))"

definition rep12 :: "rx \<Rightarrow> rx" where
  "rep12 a = Seq a (Opt a)"

text \<open>
  \<^verbatim>\<open>re.search\<close>: the first start position, from the left, at which the pattern matches,
  with the first way it matches there. The result is the text before the match, the
  match, its groups, and the rest.
\<close>

record rmatch_obj =
  m_pre :: ustr
  m_text :: ustr
  m_groups :: "ustr list"
  m_rest :: ustr

definition match_at :: "pyenv \<Rightarrow> bool \<Rightarrow> rx \<Rightarrow> ustr \<Rightarrow> ustr \<Rightarrow> rmatch_obj option" where
  "match_at env ic r pre s =
     (case rmatch env ic r s of
        [] \<Rightarrow> None
      | (g, rest) # _ \<Rightarrow>
          Some \<lparr>m_pre = pre, m_text = take (length s - length rest) s, m_groups = g, m_rest = rest\<rparr>)"

fun search_from :: "pyenv \<Rightarrow> bool \<Rightarrow> rx \<Rightarrow> ustr \<Rightarrow> ustr \<Rightarrow> rmatch_obj option" where
  "search_from env ic r pre [] = match_at env ic r pre []"
| "search_from env ic r pre (c # t) =
     (case match_at env ic r pre (c # t) of
        Some m \<Rightarrow> Some m
      | None \<Rightarrow> search_from env ic r (pre @ [c]) t)"

definition search :: "pyenv \<Rightarrow> bool \<Rightarrow> rx \<Rightarrow> ustr \<Rightarrow> rmatch_obj option" where
  "search env ic r s = search_from env ic r [] s"

text \<open>
  \<^verbatim>\<open>[m.group(0) for m in r.finditer(s)]\<close>: the matches from left to right, each search
  starting where the previous match ended. (After an empty match the scan moves on by one
  character; no pattern of the sources matches the empty string.)
\<close>

function finditer :: "pyenv \<Rightarrow> bool \<Rightarrow> rx \<Rightarrow> ustr \<Rightarrow> ustr list" where
  "finditer env ic r s =
     (case search env ic r s of
        None \<Rightarrow> []
      | Some m \<Rightarrow>
          m_text m #
          (if length (m_rest m) < length s then finditer env ic r (m_rest m)
           else (case s of [] \<Rightarrow> [] | c # t \<Rightarrow> finditer env ic r t)))"
  by pat_completeness auto
termination
  by (relation "measure (\<lambda>(env, ic, r, s). length s)") auto

declare finditer.simps [simp del]

section \<open>The relevance scorer (filters/healthcare.py)\<close>

text \<open>
  \<^verbatim>\<open>PRIMARY_AGENCIES\<close> and \<^verbatim>\<open>SECONDARY_AGENCIES\<close>, in the order of the source. The first
  primary agency is the Ministry of Health and Welfare (U+BCF4 U+AC74 U+BCF5 U+C9C0 U+BD80),
  the first secondary one the Ministry of Science and ICT.
\<close>

definition PRIMARY_AGENCIES :: "ustr list" where
  "PRIMARY_AGENCIES =
    [[48372, 44148, 48373, 51648, 48512],
     [51656, 48337, 44288, 47532, 52397],
     [49885, 54408, 51032, 50557, 54408, 50504, 51204, 52376],
     [54620, 44397, 48372, 44148, 49328, 50629, 51652, 55141, 50896],
     [44148, 44053, 48372, 54744, 49900, 49324, 54217, 44032, 50896],
     [44397, 47549, 51473, 50521, 51032, 47308, 50896],
     [54620, 44397, 48372, 44148, 51032, 47308, 50672, 44396, 50896]]"

definition SECONDARY_AGENCIES :: "ustr list" where
  "SECONDARY_AGENCIES =
    [[44284, 54617, 44592, 49696, 51221, 48372, 53685, 49888, 48512],
     [49328, 50629, 53685, 49345, 51088, 50896, 48512],
     [51221, 48372, 53685, 49888, 49328, 50629, 51652, 55141, 50896],
     [51221, 48372, 53685, 49888, 44592, 54925, 54217, 44032, 50896],
     [54620, 44397, 51648, 45733, 51221, 48372, 49324, 54924, 51652, 55141, 50896],
     [54620, 44397, 50672, 44396, 51116, 45800],
     [54620, 44397, 49328, 50629, 44592, 49696, 51652, 55141, 50896],
     [54620, 44397, 49328, 50629, 44592, 49696, 44592, 54925, 54217, 44032, 50896],
     [54620, 44397, 50640, 45320, 51648, 44592, 49696, 54217, 44032, 50896]]"

text \<open>
  \<^verbatim>\<open>INCLUDE_PATTERNS\<close> (twenty patterns) and \<^verbatim>\<open>EXCLUDE_PATTERNS\<close> (eleven), one list
  element per element of the source list. For example the second include pattern is
  \<^verbatim>\<open>D\s*H\<close> with \<open>D\<close> the three syllables U+B514 U+C9C0 U+D138 (digital) and \<open>H\<close> the two
  syllables U+D5EC U+C2A4 (health); the seventh is \<^verbatim>\<open>(?:EMR|EHR)\<close>; the last exclude
  pattern is \<^verbatim>\<open>Q(C|S|P)\<close> with \<open>Q\<close> = U+C591 U+C790 (quantum) and \<open>P\<close> = U+D50C U+B7AB U+D3FC
  (platform).
\<close>

definition INCLUDE_PATTERNS :: "rx list" where
  "INCLUDE_PATTERNS =
    [lits [51032, 47308, 44592, 44592],
     seqs [lits [46356, 51648, 53560], Star (Cls False [Space]), lits [54764, 49828]],
     seqs [lits [49828, 47560, 53944], Star (Cls False [Space]), lits [54764, 49828]],
     seqs [lits [47784, 48148, 51068], Star (Cls False [Space]), lits [54764, 49828]],
     seqs [lits [50896, 44201], alts [lits [51032, 47308], lits [51652, 47308], lits [47784,
       45768, 53552, 47553]]],
     lits [50920, 50612, 47084, 48660],
     alts [lits (u ''EMR''), lits (u ''EHR'')],
     seqs [lits [51032, 47308], Star (Cls False [Space]), lits [51221, 48372]],
     seqs [lits [51076, 49345], alts [lits [49884, 54744], lits [50672, 44396]]],
     alts [lits (u ''RWD''), lits (u ''RWE'')],
     alts [seqs [lits [51032, 47308], Star (Cls False [Space]), lits (u ''AI'')],
       seqs [lits (u ''AI''), Star (Cls False [Space]), lits [51032, 47308]], seqs [lits [51032,
       47308], Star (Cls False [Space]), lits [51064, 44277, 51648, 45733]]],
     alts [seqs [lits [48372, 44148, 51032, 47308], Star (Cls False [Space]), lits [45936, 51060,
       53552]], seqs [lits [51032, 47308], Star (Cls False [Space]), lits [45936, 51060, 53552]]],
     alts [seqs [lits [48148, 51060, 50724], Star (Cls False [Space]), lits [54764, 49828]],
       lits [48148, 51060, 50724, 54764, 49828]],
     lits [51116, 54876],
     seqs [alts [lits [44256, 47161, 51088], lits [45432, 51064]], Star (Cls False [Space]),
       alts [lits [46028, 48388], lits [52992, 50612]]],
     seqs [lits [44148, 44053], Star (Cls False [Space]), lits [44288, 47532]],
     seqs [lits [44048, 50684, 48337], Star (Cls False [Space]), alts [lits [45824, 51025],
       lits [50696, 48169], lits [44048, 49884]]],
     alts [lits [54872, 51088], lits [51652, 45800], lits [52824, 47308], lits [48337, 50896],
       lits [51032, 50557, 54408], lits [51228, 50557], lits [49888, 50557]],
     alts [lits [48372, 44148, 51032, 47308, 44592, 49696], seqs [lits [51032, 47308, 44592,
       49696], Opt (lits [44060, 48156])]],
     seqs [lits [48148, 51060, 50724], Star (Cls False [Space, Ch 183, Ch 8729, Ch 12685, Ch 45]),
       lits [51032, 47308]]]"

definition EXCLUDE_PATTERNS :: "rx list" where
  "EXCLUDE_PATTERNS =
    [alts [lits [53664, 47785], lits [44148, 49444], lits [46020, 47196], lits [52384, 46020],
       lits [54637, 47564], lits [49440, 48149], lits [51312, 49440]],
     alts [lits [54637, 44277], lits [50864, 51452], lits [50948, 49457]],
     alts [lits [44397, 48169], lits [44400, 49688]],
     alts [lits [50896, 51088, 47141], lits [50896, 51204]],
     alts [lits [44305, 49328], lits [52292, 44404]],
     seqs [lits [51088, 46041, 52264], Star (Cls False [Space]), alts [lits [48512, 54408],
       lits [44221, 47049, 54868]]],
     alts [seqs [lits [48152, 46020, 52404], NLook (seqs [Star (Cls False [Space]), lits [48148,
       51060, 50724]])], seqs [lits [46356, 49828, 54540, 47112, 51060],
       NLook (seqs [Star (Cls False [Space]), lits [54764, 49828]])], seqs [lits [48176, 53552,
       47532], NLook (seqs [Star (Cls False [Space]), lits [54764, 49828]])]],
     alts [lits [50640, 45320, 51648], lits [51204, 47141], lits [48156, 51204], lits [53468,
       50577, 44305], lits [54413, 47141], lits [49688, 49548]],
     alts [lits [45453, 50629], lits [45453, 50629, 44592, 44228]],
     alts [lits [49548, 51116, 48512, 54408], lits [49328, 50629, 54785, 49888, 44592, 48152],
       lits [49328, 45800], lits [51064, 54532, 46972]],
     seqs [lits [50577, 51088], Cap (alts [lits [52980, 54504, 54021], lits [49468, 49905],
       lits [54540, 47019, 54268]])]]"

text \<open>
  \<^verbatim>\<open>inc_regex = re.compile("|".join(INCLUDE_PATTERNS), re.IGNORECASE)\<close>, and the same
  for the exclude patterns: the alternation of the patterns in list order.
\<close>

definition inc_regex :: rx where
  "inc_regex = alts INCLUDE_PATTERNS"

definition exc_regex :: rx where
  "exc_regex = alts EXCLUDE_PATTERNS"

text \<open>The pattern of step 3: \<^verbatim>\<open>R&D\<close>, research and development, platform, data, \<^verbatim>\<open>AI\<close>,
  artificial intelligence.\<close>

definition digital_regex :: rx where
  "digital_regex =
     alts [lits (u ''R&D''), lits [50672, 44396, 44060, 48156], lits [54540, 47019, 54268],
       lits [45936, 51060, 53552], lits (u ''AI''), lits [51064, 44277, 51648, 45733]]"

text \<open>The keys of \<open>meta\<close> that the scorer reads: responsible ministry, specialised agency,
  title of the notice.\<close>

definition K_MINISTRY :: ustr where
  "K_MINISTRY = [49548, 44288, 48512, 52376]"

definition K_AGENCY :: ustr where
  "K_AGENCY = [51204, 47928, 44592, 44288]"

definition K_TITLE :: ustr where
  "K_TITLE = [44277, 44256, 47749]"

text \<open>The fixed texts of the reasons, as code points (each ends in its delta, such as
  \<^verbatim>\<open>(+3)\<close>).\<close>

definition R_PRIMARY :: ustr where
  "R_PRIMARY = [49, 49692, 50948, 32, 48372, 44148, 47, 51032, 47308, 32, 44592, 44288, 40, 43, 51, 41]"

definition R_SECONDARY :: ustr where
  "R_SECONDARY = [50, 49692, 50948, 32, 82, 38, 68, 47, 73, 67, 84, 32, 44592, 44288, 40, 43, 49, 41]"

definition R_INC :: ustr where
  "R_INC = [54764, 49828, 32, 53412, 50892, 46300, 32]"

definition R_EXC :: ustr where
  "R_EXC = [48708, 54764, 49828, 32, 53412, 50892, 46300, 32]"

definition R_DIGITAL :: ustr where
  "R_DIGITAL = [46356, 51648, 53560, 47, 82, 38, 68, 32, 47589, 46973, 40, 43, 49, 41]"

definition R_PENALTY :: ustr where
  "R_PENALTY = [50, 49692, 50948, 32, 44592, 44288, 51064, 45936, 32, 54764, 49828, 32, 53412, 50892,
     46300, 32, 50630, 51020, 40, 45, 49, 41]"

type_synonym pydict = "ustr \<rightharpoonup> ustr"

definition dict_get :: "pydict \<Rightarrow> ustr \<Rightarrow> ustr \<Rightarrow> ustr" where
  "dict_get d k dflt = (case d k of None \<Rightarrow> dflt | Some v \<Rightarrow> v)"

text \<open>\<^verbatim>\<open>_text(*parts)\<close>: \<^verbatim>\<open>" ".join([p for p in parts if p]).lower()\<close>.\<close>

definition text_of_parts :: "pyenv \<Rightarrow> ustr list \<Rightarrow> ustr" where
  "text_of_parts env parts = str_lower env (join [32] (filter (\<lambda>p. p \<noteq> []) parts))"

definition src_agencies :: "pydict \<Rightarrow> ustr" where
  "src_agencies meta = join [32] [dict_get meta K_MINISTRY [], dict_get meta K_AGENCY []]"

definition is_primary :: "pydict \<Rightarrow> bool" where
  "is_primary meta \<longleftrightarrow> (\<exists>ag \<in> set PRIMARY_AGENCIES. str_in ag (src_agencies meta))"

definition is_secondary :: "pydict \<Rightarrow> bool" where
  "is_secondary meta \<longleftrightarrow> (\<exists>ag \<in> set SECONDARY_AGENCIES. str_in ag (src_agencies meta))"

definition hay :: "pyenv \<Rightarrow> pydict \<Rightarrow> ustr \<Rightarrow> ustr" where
  "hay env meta extra_text = text_of_parts env [dict_get meta K_TITLE [], extra_text]"

text \<open>
  \<^verbatim>\<open>{s.lower() for s in inc if s}\<close>: \<open>uniq\<close> lists the elements put into the set, in the
  order of the matches; the set has \<open>length (remdups _)\<close> elements, and its \<^verbatim>\<open>repr\<close>
  lists them in the iteration order of the process.
\<close>

definition uniq :: "pyenv \<Rightarrow> ustr list \<Rightarrow> ustr list" where
  "uniq env ms = map (str_lower env) (filter (\<lambda>s. s \<noteq> []) ms)"

definition pts :: "ustr list \<Rightarrow> nat" where
  "pts xs = min 4 (length (remdups xs))"

definition set_repr :: "pyenv \<Rightarrow> ustr list \<Rightarrow> ustr" where
  "set_repr env xs =
     (if xs = [] then u ''set()''
      else [123] @ join (u '', '') (map (repr_str env) (set_order env xs)) @ [125])"

definition has_digital :: "pyenv \<Rightarrow> ustr \<Rightarrow> bool" where
  "has_digital env h \<longleftrightarrow> search env True digital_regex h \<noteq> None"

text \<open>\<^verbatim>\<open>score_notice(meta, extra_text)\<close>, statement by statement.\<close>

definition score_notice :: "pyenv \<Rightarrow> pydict \<Rightarrow> ustr \<Rightarrow> int \<times> ustr list" where
  "score_notice env meta extra_text =
     (let reasons = []; score = 0;
          (score, reasons) =
            (if is_primary meta then (score + 3, reasons @ [R_PRIMARY])
             else if is_secondary meta then (score + 1, reasons @ [R_SECONDARY])
             else (score, reasons));
          h = hay env meta extra_text;
          inc = finditer env True inc_regex h;
          exc = finditer env True exc_regex h;
          (score, reasons) =
            (if inc \<noteq> [] then
               (let inc_uniq = uniq env inc; inc_pts = pts inc_uniq
                in (score + int inc_pts,
                    reasons @ [R_INC @ set_repr env inc_uniq @ u ''(+'' @ str_of_nat inc_pts @ u '')'']))
             else (score, reasons));
          (score, reasons) =
            (if exc \<noteq> [] then
               (let exc_uniq = uniq env exc; exc_pts = pts exc_uniq
                in (score - int exc_pts,
                    reasons @ [R_EXC @ set_repr env exc_uniq @ u ''(-'' @ str_of_nat exc_pts @ u '')'']))
             else (score, reasons));
          (score, reasons) =
            (if has_digital env h then (score + 1, reasons @ [R_DIGITAL]) else (score, reasons));
          (score, reasons) =
            (if is_secondary meta \<and> inc = [] then (score - 1, reasons @ [R_PENALTY])
             else (score, reasons))
      in (score, reasons))"

text \<open>The parts of the score, for the statements about them.\<close>

definition agency_points :: "pydict \<Rightarrow> int" where
  "agency_points meta = (if is_primary meta then 3 else if is_secondary meta then 1 else 0)"

definition include_contribution :: "pyenv \<Rightarrow> ustr \<Rightarrow> int" where
  "include_contribution env h =
     (let inc = finditer env True inc_regex h in if inc \<noteq> [] then int (pts (uniq env inc)) else 0)"

definition exclude_contribution :: "pyenv \<Rightarrow> ustr \<Rightarrow> int" where
  "exclude_contribution env h =
     (let exc = finditer env True exc_regex h in if exc \<noteq> [] then - int (pts (uniq env exc)) else 0)"

definition digital_bonus :: "pyenv \<Rightarrow> ustr \<Rightarrow> int" where
  "digital_bonus env h = (if has_digital env h then 1 else 0)"

definition conservative_penalty :: "pyenv \<Rightarrow> pydict \<Rightarrow> ustr \<Rightarrow> int" where
  "conservative_penalty env meta h =
     (if is_secondary meta \<and> finditer env True inc_regex h = [] then - 1 else 0)"

text \<open>
  The keyword rule as the specification words it: one point for each include pattern
  (each exclude pattern) that matches somewhere in the text, capped at four.
\<close>

definition spec_include_contribution :: "pyenv \<Rightarrow> ustr \<Rightarrow> int" where
  "spec_include_contribution env h =
     int (min 4 (length (filter (\<lambda>p. search env True p h \<noteq> None) INCLUDE_PATTERNS)))"

definition spec_exclude_contribution :: "pyenv \<Rightarrow> ustr \<Rightarrow> int" where
  "spec_exclude_contribution env h =
     - int (min 4 (length (filter (\<lambda>p. search env True p h \<noteq> None) EXCLUDE_PATTERNS)))"


text \<open>
  The text of a keyword reason, \<^verbatim>\<open>f"... {inc_uniq}(+{inc_pts})"\<close>: the label, the \<^verbatim>\<open>repr\<close> of
  the set, the sign, the points and the closing parenthesis. Two reasons of two processes
  agree up to the iteration order of sets when they are the same text, or when they are
  the keyword reasons of one label over the same elements.
\<close>

definition keyword_reason :: "pyenv \<Rightarrow> ustr \<Rightarrow> ustr \<Rightarrow> ustr list \<Rightarrow> ustr" where
  "keyword_reason env label sign xs = label @ set_repr env xs @ sign @ str_of_nat (pts xs) @ u '')''"

definition reason_agrees :: "pyenv \<Rightarrow> pyenv \<Rightarrow> ustr list \<Rightarrow> ustr list \<Rightarrow> ustr \<Rightarrow> ustr \<Rightarrow> bool" where
  "reason_agrees env1 env2 inc_uniq exc_uniq r1 r2 \<longleftrightarrow>
     r1 = r2 \<or>
     (r1 = keyword_reason env1 R_INC (u ''(+'') inc_uniq \<and>
      r2 = keyword_reason env2 R_INC (u ''(+'') inc_uniq) \<or>
     (r1 = keyword_reason env1 R_EXC (u ''(-'') exc_uniq \<and>
      r2 = keyword_reason env2 R_EXC (u ''(-'') exc_uniq)"
section \<open>Link validation (crawlers/khidi\_events.py)\<close>

text \<open>\<^verbatim>\<open>PLACEHOLDER_HREFS\<close>: the empty string, a hyphen, an en dash, an em dash, two Korean
  words (none, undecided), \<^verbatim>\<open>n/a\<close>, \<^verbatim>\<open>N/A\<close>, \<^verbatim>\<open>null\<close>, \<^verbatim>\<open>NULL\<close>.\<close>

definition PLACEHOLDER_HREFS :: "ustr list" where
  "PLACEHOLDER_HREFS =
     [[], u ''-'', [8211], [8212], [50630, 51020], [48120, 51221],
      u ''n/a'', u ''N/A'', u ''null'', u ''NULL'']"

text \<open>\<^verbatim>\<open>_is_placeholder_href(href)\<close>. (The callers pass strings; \<^verbatim>\<open>not href\<close> is then the
  test for the empty string.)\<close>

definition is_placeholder_href :: "pyenv \<Rightarrow> ustr \<Rightarrow> bool" where
  "is_placeholder_href env href =
     (if href = [] then True
      else (let s = str_lower env (strip href)
            in s \<in> set PLACEHOLDER_HREFS \<or> s = u ''#'' \<or>
               startswith s (u ''javascript:'') \<or> startswith s (u ''mailto:'') \<or>
               startswith s (u ''tel:'')))"

definition rstrip_chars :: "ustr \<Rightarrow> ustr \<Rightarrow> ustr" where
  "rstrip_chars cs s = rev (dropWhile (\<lambda>c. c \<in> set cs) (rev s))"

definition strip_chars :: "ustr \<Rightarrow> ustr \<Rightarrow> ustr" where
  "strip_chars cs s = rstrip_chars cs (dropWhile (\<lambda>c. c \<in> set cs) s)"

text \<open>\<^verbatim>\<open>_looks_like_khidi_placeholder(url)\<close>: the host contains \<^verbatim>\<open>khidi.or.kr\<close> and the path,
  without trailing slashes, is \<^verbatim>\<open>/board\<close> or \<^verbatim>\<open>/board/-\<close>; \<open>False\<close> when parsing raises.\<close>

definition looks_like_khidi_placeholder :: "pyenv \<Rightarrow> ustr \<Rightarrow> bool" where
  "looks_like_khidi_placeholder env url =
     (case urlparse env url of
        None \<Rightarrow> False
      | Some (netloc, path) \<Rightarrow>
          str_in (u ''khidi.or.kr'') (str_lower env netloc) \<and>
          rstrip_chars (u ''/'') path \<in> {u ''/board'', u ''/board/-''})"

text \<open>
  What the code reads of a \<^verbatim>\<open>requests.Response\<close>: \<^verbatim>\<open>status_code\<close>, \<^verbatim>\<open>str(resp.url)\<close>, the
  header \<^verbatim>\<open>Content-Type\<close> (absent: \<open>None\<close>), \<^verbatim>\<open>int(resp.headers.get("Content-Length", "0"))\<close>
  (\<open>None\<close> when \<^verbatim>\<open>int\<close> raises), the body \<^verbatim>\<open>content\<close> and the decoded \<^verbatim>\<open>text\<close>.
\<close>

record response =
  status_code :: int
  resp_url :: ustr
  content_type :: "ustr option"
  content_length_int :: "int option"
  content :: "int list"
  resp_text :: ustr

text \<open>
  The session and the network. A request is a method, a URL and the referer sent with
  it. The session state is the list of the requests made so far; what the network answers
  (a response, or an exception raised by \<^verbatim>\<open>sess.head\<close> or \<^verbatim>\<open>sess.get\<close>) may depend on it.
\<close>

datatype meth = HEAD | GET

type_synonym request = "meth \<times> ustr \<times> ustr"

type_synonym world = "request list \<Rightarrow> request \<Rightarrow> pyexn + response"

definition send :: "world \<Rightarrow> request \<Rightarrow> request list \<Rightarrow> (pyexn + response) \<times> request list" where
  "send w rq log = (w log rq, log @ [rq])"

definition OK_TYPES :: "ustr list" where
  "OK_TYPES = [u ''text/html'', u ''application/pdf'', u ''application/octet-stream'',
               u ''application/msword'', u ''application/vnd.openxmlformats'']"

definition header_lower :: "pyenv \<Rightarrow> ustr option \<Rightarrow> ustr" where
  "header_lower env h = str_lower env (case h of None \<Rightarrow> [] | Some v \<Rightarrow> v)"

text \<open>\<^verbatim>\<open>_looks_like_ok_content(resp)\<close>.\<close>

definition looks_like_ok_content :: "pyenv \<Rightarrow> response \<Rightarrow> bool" where
  "looks_like_ok_content env resp =
     (let ct = header_lower env (content_type resp)
      in if \<exists>x \<in> set OK_TYPES. str_in x ct then True
         else if (case content_length_int resp of Some clen \<Rightarrow> clen > 200 | None \<Rightarrow> False) then True
         else length (content resp) > 200)"

text \<open>\<^verbatim>\<open>_safe_abs_url(href, base)\<close>: \<open>None\<close> for a placeholder, else the joined URL; \<^verbatim>\<open>urljoin\<close>
  may raise.\<close>

definition safe_abs_url :: "pyenv \<Rightarrow> ustr \<Rightarrow> ustr \<Rightarrow> pyexn + ustr option" where
  "safe_abs_url env href base =
     (if is_placeholder_href env href then Inr None
      else (case urljoin env base (strip href) of Inl e \<Rightarrow> Inl e | Inr x \<Rightarrow> Inr (Some x)))"

text \<open>The pattern of \<^verbatim>\<open>_follow_meta_refresh\<close>, compiled with \<^verbatim>\<open>re.I\<close>:
  \<^verbatim>\<open><meta[^>]+http-equiv=["']?refresh["']?[^>]*content=["']?[^>]*url\s*=\s*([^"' >;]+)\<close>.\<close>

definition meta_refresh_regex :: rx where
  "meta_refresh_regex =
     seqs [lits (u ''<meta''), plus (Cls True [Ch 62]), lits (u ''http-equiv=''),
       Opt (Cls False [Ch 34, Ch 39]), lits (u ''refresh''), Opt (Cls False [Ch 34, Ch 39]),
       Star (Cls True [Ch 62]), lits (u ''content=''), Opt (Cls False [Ch 34, Ch 39]),
       Star (Cls True [Ch 62]), lits (u ''url''), Star (Cls False [Space]), Lit 61,
       Star (Cls False [Space]), Cap (plus (Cls True [Ch 34, Ch 39, Ch 32, Ch 62, Ch 59]))]"

text \<open>\<^verbatim>\<open>_follow_meta_refresh(html, base_url)\<close>; \<^verbatim>\<open>m.group(1)\<close> is the one group of the
  pattern.\<close>

definition follow_meta_refresh :: "pyenv \<Rightarrow> ustr \<Rightarrow> ustr \<Rightarrow> pyexn + ustr option" where
  "follow_meta_refresh env html base_url =
     (case search env True meta_refresh_regex html of
        None \<Rightarrow> Inr None
      | Some m \<Rightarrow> safe_abs_url env (strip_chars [39, 34] (hd (m_groups m))) base_url)"

text \<open>
  The dictionary \<open>meta\<close> of \<^verbatim>\<open>_validate_link\<close>. The keys \<^verbatim>\<open>status\<close>, \<^verbatim>\<open>ct\<close> and \<^verbatim>\<open>note\<close> are
  absent until they are set (\<open>None\<close>); \<^verbatim>\<open>ct\<close> is also \<open>None\<close> when the response has no
  \<^verbatim>\<open>Content-Type\<close>. A note is one of the five strings the code writes:
  \<^verbatim>\<open>empty-url\<close>, \<^verbatim>\<open>head_err:...\<close>, \<^verbatim>\<open>get_err:...\<close>, \<^verbatim>\<open>get_bad_status:...\<close> and the one for a
  followed meta refresh.
\<close>

datatype vnote = EmptyUrl | HeadErr pyexn | GetErr pyexn | GetBadStatus int | MetaRefresh ustr

record vmeta =
  tried_head :: bool
  tried_get :: bool
  final_url :: ustr
  status :: "int option"
  ct :: "ustr option"
  vm_note :: "vnote option"

text \<open>\<^verbatim>\<open>meta.update(status=r.status_code, final_url=str(r.url), ct=r.headers.get("Content-Type"))\<close>.\<close>

definition meta_update :: "vmeta \<Rightarrow> response \<Rightarrow> vmeta" where
  "meta_update meta r =
     meta\<lparr>status := Some (status_code r), final_url := resp_url r, ct := content_type r\<rparr>"

text \<open>The HEAD check succeeded at once: a response came and its status is 2xx.\<close>

definition head_2xx :: "pyexn + response \<Rightarrow> bool" where
  "head_2xx hr = (case hr of Inl e \<Rightarrow> False | Inr r \<Rightarrow> 200 \<le> status_code r \<and> status_code r < 300)"

text \<open>
  The target of a meta refresh that \<^verbatim>\<open>_validate_link\<close> follows after a good GET: the
  response is HTML, the first 5000 characters carry the directive, and the target is
  non-empty and differs from the URL of the response.
\<close>

definition refresh_hop :: "pyenv \<Rightarrow> response \<Rightarrow> pyexn + ustr option" where
  "refresh_hop env gr =
     (if str_in (u ''text/html'') (header_lower env (content_type gr)) then
        (case follow_meta_refresh env (take 5000 (resp_text gr)) (resp_url gr) of
           Inl e \<Rightarrow> Inl e
         | Inr None \<Rightarrow> Inr None
         | Inr (Some nxt) \<Rightarrow> if nxt \<noteq> [] \<and> nxt \<noteq> resp_url gr then Inr (Some nxt) else Inr None)
      else Inr None)"

text \<open>
  \<^verbatim>\<open>_validate_link(url, sess, referer)\<close>. The function calls itself once for each meta
  refresh it follows and has no counter of its own. The first argument is the number of
  nested calls the interpreter still allows: a call beyond it raises \<^verbatim>\<open>RecursionError\<close>,
  which the \<^verbatim>\<open>except Exception\<close> of the calling frame catches like any error of the
  GET stage. The result is the returned pair, or the exception that leaves the function,
  together with the new session state.
\<close>

fun validate_link ::
  "nat \<Rightarrow> pyenv \<Rightarrow> world \<Rightarrow> ustr \<Rightarrow> ustr \<Rightarrow> request list
     \<Rightarrow> (pyexn + bool \<times> vmeta) \<times> request list" where
  "validate_link 0 env w url referer log = (Inl RecursionError, log)"
| "validate_link (Suc d) env w url referer log =
     (let meta = \<lparr>tried_head = False, tried_get = False, final_url = url,
                   status = None, ct = None, vm_note = None\<rparr>
      in if url = [] then (Inr (False, meta\<lparr>vm_note := Some EmptyUrl\<rparr>), log)
         else
           (let meta = meta\<lparr>tried_head := True\<rparr>;
                (hr, log) = send w (HEAD, url, referer) log;
                meta = (case hr of Inl e \<Rightarrow> meta\<lparr>vm_note := Some (HeadErr e)\<rparr>
                        | Inr r \<Rightarrow> meta_update meta r)
            in if head_2xx hr then (Inr (True, meta), log)
               else
                 (let meta = meta\<lparr>tried_get := True\<rparr>;
                      (gr, log) = send w (GET, url, referer) log
                  in case gr of
                       Inl e \<Rightarrow> (Inr (False, meta\<lparr>vm_note := Some (GetErr e)\<rparr>), log)
                     | Inr g \<Rightarrow>
                         (let meta = meta_update meta g
                          in if 200 \<le> status_code g \<and> status_code g < 400 \<and>
                                looks_like_ok_content env g
                             then (case refresh_hop env g of
                                     Inl e \<Rightarrow> (Inr (False, meta\<lparr>vm_note := Some (GetErr e)\<rparr>), log)
                                   | Inr None \<Rightarrow> (Inr (True, meta), log)
                                   | Inr (Some nxt) \<Rightarrow>
                                       (case validate_link d env w nxt referer log of
                                          (Inl e, log) \<Rightarrow>
                                            (Inr (False, meta\<lparr>vm_note := Some (GetErr e)\<rparr>), log)
                                        | (Inr (ok2, m2), log) \<Rightarrow>
                                            (Inr (ok2, meta\<lparr>vm_note := Some (MetaRefresh nxt),
                                                       final_url := final_url m2,
                                                       status := status m2, ct := ct m2\<rparr>), log)))
                             else (Inr (False, meta\<lparr>vm_note := Some (GetBadStatus (status_code g))\<rparr>),
                                   log)))))"

declare validate_link.simps(2) [simp del]

text \<open>
  Example networks. In all of them a HEAD request is answered with status 405, and a URL
  that is not listed does not answer (the request raises). A page that redirects is the
  HTML text \<^verbatim>\<open><meta http-equiv=refresh content=0;url=TARGET>\<close>.
\<close>

definition url_a :: ustr where
  "url_a = u ''http://a.example/x''"

definition url_b :: ustr where
  "url_b = u ''http://b.example/x''"

definition url_c :: ustr where
  "url_c = u ''http://c.example/f.pdf''"

definition url_r :: ustr where
  "url_r = u ''http://www.khidi.or.kr/board/view?linkId=1''"

definition refresh_page :: "ustr \<Rightarrow> ustr \<Rightarrow> response" where
  "refresh_page url target =
     \<lparr>status_code = 200, resp_url = url, content_type = Some (u ''text/html''),
      content_length_int = Some 0, content = [],
      resp_text = u ''<meta http-equiv=refresh content=0;url='' @ target @ u ''>''\<rparr>"

definition pdf_page :: "ustr \<Rightarrow> response" where
  "pdf_page url =
     \<lparr>status_code = 200, resp_url = url, content_type = Some (u ''application/pdf''),
      content_length_int = Some 0, content = [], resp_text = []\<rparr>"

definition head_405 :: "ustr \<Rightarrow> response" where
  "head_405 url =
     \<lparr>status_code = 405, resp_url = url, content_type = None,
      content_length_int = Some 0, content = [], resp_text = []\<rparr>"

definition no_answer :: "pyexn + response" where
  "no_answer = Inl (OtherError (u ''ConnectionError''))"

text \<open>A chain: page a redirects to page b, page b to a PDF.\<close>

definition chain_world :: world where
  "chain_world log rq =
     (case rq of
        (HEAD, url, referer) \<Rightarrow> Inr (head_405 url)
      | (GET, url, referer) \<Rightarrow>
          if url = url_a then Inr (refresh_page url (url_b))
          else if url = url_b then Inr (refresh_page url (url_c))
          else if url = url_c then Inr (pdf_page url)
          else no_answer)"

text \<open>A cycle: page a redirects to page b and page b to page a.\<close>

definition cycle_world :: world where
  "cycle_world log rq =
     (case rq of
        (HEAD, url, referer) \<Rightarrow> Inr (head_405 url)
      | (GET, url, referer) \<Rightarrow>
          if url = url_a then Inr (refresh_page url (url_b))
          else if url = url_b then Inr (refresh_page url (url_a))
          else no_answer)"

text \<open>Page a redirects to page b, which does not answer.\<close>

definition dead_target_world :: world where
  "dead_target_world log rq =
     (case rq of
        (HEAD, url, referer) \<Rightarrow> if url = url_a then Inr (head_405 url) else no_answer
      | (GET, url, referer) \<Rightarrow> if url = url_a then Inr (refresh_page url url_b) else no_answer)"

text \<open>Every GET is answered with status 103 and an HTML body without a redirect.\<close>

definition hints_page :: "ustr \<Rightarrow> response" where
  "hints_page url =
     \<lparr>status_code = 103, resp_url = url, content_type = Some (u ''text/html''),
      content_length_int = Some 0, content = [], resp_text = u ''<html></html>''\<rparr>"

definition early_hints_world :: world where
  "early_hints_world log rq =
     (case rq of
        (HEAD, url, referer) \<Rightarrow> Inr (head_405 url)
      | (GET, url, referer) \<Rightarrow> Inr (hints_page url))"


text \<open>Everything answers a HEAD with status 200.\<close>

definition head_ok_world :: world where
  "head_ok_world log rq =
     (case rq of
        (HEAD, url, referer) \<Rightarrow> Inr (pdf_page url)
      | (GET, url, referer) \<Rightarrow> no_answer)"

definition count_gets :: "request list \<Rightarrow> nat" where
  "count_gets log = length (filter (\<lambda>rq. fst rq = GET) log)"

text \<open>The verdict of a call, and whether the request at position \<open>i\<close> of a session was
  answered by a response.\<close>

definition is_valid :: "(pyexn + bool \<times> vmeta) \<times> request list \<Rightarrow> bool" where
  "is_valid res = (case fst res of Inl e \<Rightarrow> False | Inr (ok, meta) \<Rightarrow> ok)"

definition answered :: "world \<Rightarrow> request list \<Rightarrow> nat \<Rightarrow> bool" where
  "answered w log i = (case w (take i log) (log ! i) of Inl e \<Rightarrow> False | Inr r \<Rightarrow> True)"

text \<open>Some request made after the session state \<open>log\<close>, up to the state \<open>full\<close>, was
  answered by a response.\<close>

definition some_answer :: "world \<Rightarrow> request list \<Rightarrow> request list \<Rightarrow> bool" where
  "some_answer w log full = (\<exists>i \<in> {length log ..< length full}. answered w full i)"

text \<open>The dictionary \<open>meta\<close> of a call after its HEAD stage (given what the HEAD request
  gave), when the GET stage starts, and after the update from the GET response.\<close>

definition meta_head :: "ustr \<Rightarrow> pyexn + response \<Rightarrow> vmeta" where
  "meta_head url hr =
     (let meta = \<lparr>tried_head = True, tried_get = False, final_url = url,
                   status = None, ct = None, vm_note = None\<rparr>
      in case hr of Inl e \<Rightarrow> meta\<lparr>vm_note := Some (HeadErr e)\<rparr> | Inr r \<Rightarrow> meta_update meta r)"

definition meta_tried :: "ustr \<Rightarrow> pyexn + response \<Rightarrow> vmeta" where
  "meta_tried url hr = (meta_head url hr)\<lparr>tried_get := True\<rparr>"

definition meta_get :: "ustr \<Rightarrow> pyexn + response \<Rightarrow> response \<Rightarrow> vmeta" where
  "meta_get url hr g = meta_update (meta_tried url hr) g"

section \<open>Dates (crawlers/khidi\_events.py and main.py)\<close>

text \<open>
  \<^verbatim>\<open>int(s)\<close> for a string without sign and underscores, which is all the callers pass:
  surrounding whitespace is dropped, and the rest must be one or more decimal digits of
  Unicode; otherwise \<^verbatim>\<open>int\<close> raises (\<open>None\<close>).
\<close>

definition digit_value :: "pyenv \<Rightarrow> int \<Rightarrow> int" where
  "digit_value env c =
     (case filter (\<lambda>z. z \<le> c \<and> c < z + 10) (nd_zeros env) of [] \<Rightarrow> 0 | z # zs \<Rightarrow> c - z)"

definition py_int :: "pyenv \<Rightarrow> ustr \<Rightarrow> int option" where
  "py_int env s =
     (let t = strip s
      in if t \<noteq> [] \<and> list_all (isdecimal env) t
         then Some (foldl (\<lambda>n c. 10 * n + digit_value env c) 0 t)
         else None)"

text \<open>\<^verbatim>\<open>f"{y:04d}-{mo:02d}-{d:02d}"\<close> for non-negative integers.\<close>

definition fmt_date :: "int \<Rightarrow> int \<Rightarrow> int \<Rightarrow> ustr" where
  "fmt_date y mo d =
     zfill 4 (str_of_int y) @ [45] @ zfill 2 (str_of_int mo) @ [45] @ zfill 2 (str_of_int d)"

text \<open>\<^verbatim>\<open>s.split(c)\<close> for a separator of one character.\<close>

fun split_on :: "int \<Rightarrow> ustr \<Rightarrow> ustr list" where
  "split_on c [] = [[]]"
| "split_on c (x # xs) =
     (if x = c then [] # split_on c xs
      else (case split_on c xs of [] \<Rightarrow> [[x]] | h # t \<Rightarrow> (x # h) # t))"

text \<open>
  The patterns of \<^verbatim>\<open>_norm_date\<close>:
  \<^verbatim>\<open>(\d{4})\s*Y\s*(\d{1,2})\s*M\s*(\d{1,2})\s*D\<close> with the Korean words for year, month and day
  (U+B144, U+C6D4, U+C77C) at \<^verbatim>\<open>Y\<close>, \<^verbatim>\<open>M\<close> and \<^verbatim>\<open>D\<close>;
  \<^verbatim>\<open>(\d{4})\s*[./-]\s*(\d{1,2})\s*[./-]\s*(\d{1,2})\<close>; and \<^verbatim>\<open>(\d{4}-\d{1,2}-\d{1,2})\<close>.
  The separators of a range are \<^verbatim>\<open>~\<close>, the en dash, the em dash and U+81F3.
\<close>

definition DIGIT :: rx where
  "DIGIT = Cls False [Digit]"

definition SPACES :: rx where
  "SPACES = Star (Cls False [Space])"

definition DATE_SEP :: rx where
  "DATE_SEP = Cls False [Ch 46, Ch 47, Ch 45]"

definition kr_date_regex :: rx where
  "kr_date_regex =
     seqs [Cap (rep4 DIGIT), SPACES, Lit 45380, SPACES, Cap (rep12 DIGIT), SPACES, Lit 50900,
           SPACES, Cap (rep12 DIGIT), SPACES, Lit 51068]"

definition sep_date_regex :: rx where
  "sep_date_regex =
     seqs [Cap (rep4 DIGIT), SPACES, DATE_SEP, SPACES, Cap (rep12 DIGIT), SPACES, DATE_SEP,
           SPACES, Cap (rep12 DIGIT)]"

definition iso_date_regex :: rx where
  "iso_date_regex = Cap (seqs [rep4 DIGIT, Lit 45, rep12 DIGIT, Lit 45, rep12 DIGIT])"

definition RANGE_SEPS :: "int list" where
  "RANGE_SEPS = [126, 8211, 8212, 33267]"

text \<open>
  A \<^verbatim>\<open>datetime\<close> without microseconds and time zone. \<^verbatim>\<open>datetime(y, m, d, ...)\<close> raises
  unless the year is from 1 to 9999 and the day exists in the month.
\<close>

record datetime =
  dt_year :: int
  dt_month :: int
  dt_day :: int
  dt_hour :: int
  dt_minute :: int
  dt_second :: int

definition is_leap :: "int \<Rightarrow> bool" where
  "is_leap y \<longleftrightarrow> y mod 4 = 0 \<and> (y mod 100 \<noteq> 0 \<or> y mod 400 = 0)"

definition days_in_month :: "int \<Rightarrow> int \<Rightarrow> int" where
  "days_in_month y m =
     (if m = 2 then (if is_leap y then 29 else 28)
      else if m = 4 \<or> m = 6 \<or> m = 9 \<or> m = 11 then 30 else 31)"

definition valid_date :: "int \<Rightarrow> int \<Rightarrow> int \<Rightarrow> bool" where
  "valid_date y m d \<longleftrightarrow>
     1 \<le> y \<and> y \<le> 9999 \<and> 1 \<le> m \<and> m \<le> 12 \<and> 1 \<le> d \<and> d \<le> days_in_month y m"

definition datetime_min :: datetime where
  "datetime_min = \<lparr>dt_year = 1, dt_month = 1, dt_day = 1, dt_hour = 0, dt_minute = 0, dt_second = 0\<rparr>"

text \<open>
  \<^verbatim>\<open>datetime.strptime(s, fmt)\<close> for the four formats of the sources. The module
  \<^verbatim>\<open>_strptime\<close> turns the format into a regular expression: \<^verbatim>\<open>%Y\<close> is \<^verbatim>\<open>(\d\d\d\d)\<close>, \<^verbatim>\<open>%m\<close> is
  \<^verbatim>\<open>(1[0-2]|0[1-9]|[1-9])\<close>, \<^verbatim>\<open>%d\<close> is \<^verbatim>\<open>(3[0-1]|[1-2]\d|0[1-9]|[1-9]| [1-9])\<close>, \<^verbatim>\<open>%H\<close> is
  \<^verbatim>\<open>(2[0-3]|[0-1]\d|\d)\<close>, \<^verbatim>\<open>%M\<close> is \<^verbatim>\<open>([0-5]\d|\d)\<close>, a space of the format is \<^verbatim>\<open>\s+\<close> and the
  other characters stand for themselves. (The expression is compiled with
  \<^verbatim>\<open>re.IGNORECASE\<close>; its literal characters have no case, and they are written as
  classes here.) The string must match from its start, the first match in the order of
  \<^verbatim>\<open>re\<close> must reach its end, and the date must exist; otherwise \<^verbatim>\<open>strptime\<close> raises
  (\<open>None\<close>).
\<close>

datatype date_format = Fmt_ymd_hm | Fmt_ymd | Fmt_dots | Fmt_slashes

definition ch :: "string \<Rightarrow> rx" where
  "ch cs = Cls False (map (\<lambda>c. Ch (of_char c)) cs)"

definition DIR_Y :: rx where
  "DIR_Y = Cap (rep4 DIGIT)"

definition DIR_m :: rx where
  "DIR_m = Cap (alts [Seq (ch ''1'') (ch ''012''), Seq (ch ''0'') (ch ''123456789''), ch ''123456789''])"

definition DIR_d :: rx where
  "DIR_d = Cap (alts [Seq (ch ''3'') (ch ''01''), Seq (ch ''12'') DIGIT,
                      Seq (ch ''0'') (ch ''123456789''), ch ''123456789'',
                      Seq (ch '' '') (ch ''123456789'')])"

definition DIR_H :: rx where
  "DIR_H = Cap (alts [Seq (ch ''2'') (ch ''0123''), Seq (ch ''01'') DIGIT, DIGIT])"

definition DIR_M :: rx where
  "DIR_M = Cap (alts [Seq (ch ''012345'') DIGIT, DIGIT])"

fun format_regex :: "date_format \<Rightarrow> rx" where
  "format_regex Fmt_ymd_hm =
     seqs [DIR_Y, ch ''-'', DIR_m, ch ''-'', DIR_d, plus (Cls False [Space]), DIR_H, ch '':'', DIR_M]"
| "format_regex Fmt_ymd = seqs [DIR_Y, ch ''-'', DIR_m, ch ''-'', DIR_d]"
| "format_regex Fmt_dots = seqs [DIR_Y, ch ''.'', DIR_m, ch ''.'', DIR_d]"
| "format_regex Fmt_slashes = seqs [DIR_Y, ch ''/'', DIR_m, ch ''/'', DIR_d]"

definition group_int :: "pyenv \<Rightarrow> ustr list \<Rightarrow> nat \<Rightarrow> int" where
  "group_int env gs i = (if i < length gs then (case py_int env (gs ! i) of None \<Rightarrow> 0 | Some n \<Rightarrow> n) else 0)"

definition strptime :: "pyenv \<Rightarrow> ustr \<Rightarrow> date_format \<Rightarrow> datetime option" where
  "strptime env s fmt =
     (case rmatch env True (format_regex fmt) s of
        [] \<Rightarrow> None
      | (gs, rest) # others \<Rightarrow>
          if rest \<noteq> [] then None
          else if valid_date (group_int env gs 0) (group_int env gs 1) (group_int env gs 2)
          then Some \<lparr>dt_year = group_int env gs 0, dt_month = group_int env gs 1,
                      dt_day = group_int env gs 2, dt_hour = group_int env gs 3,
                      dt_minute = group_int env gs 4, dt_second = 0\<rparr>
          else None)"

text \<open>\<^verbatim>\<open>_norm_date(s)\<close> of crawlers/khidi\_events.py, step by step. \<^verbatim>\<open>int\<close> may raise, and so
  may the unpacking of the three parts at step 4.\<close>

definition ints3 :: "pyenv \<Rightarrow> ustr list \<Rightarrow> pyexn + ustr" where
  "ints3 env parts =
     (case parts of
        [a, b, c] \<Rightarrow>
          (case (py_int env a, py_int env b, py_int env c) of
             (Some y, Some mo, Some d) \<Rightarrow> Inr (fmt_date y mo d)
           | _ \<Rightarrow> Inl (OtherError (u ''ValueError'')))
      | _ \<Rightarrow> Inl (OtherError (u ''ValueError'')))"

fun try_formats :: "pyenv \<Rightarrow> ustr \<Rightarrow> date_format list \<Rightarrow> ustr" where
  "try_formats env s [] = []"
| "try_formats env s (fmt # fmts) =
     (case strptime env s fmt of
        Some dt \<Rightarrow> strftime_ymd env (dt_year dt) (dt_month dt) (dt_day dt)
      | None \<Rightarrow> try_formats env s fmts)"

definition norm_date :: "pyenv \<Rightarrow> ustr \<Rightarrow> pyexn + ustr" where
  "norm_date env s0 =
     (let s = strip s0
      in if s = [] then Inr []
         else (let s = takeWhile (\<lambda>c. c \<notin> set RANGE_SEPS) s
               in case search env False kr_date_regex s of
                    Some m \<Rightarrow> ints3 env (m_groups m)
                  | None \<Rightarrow>
                     (case search env False sep_date_regex s of
                        Some m \<Rightarrow> ints3 env (m_groups m)
                      | None \<Rightarrow>
                         (case search env False iso_date_regex s of
                            Some m \<Rightarrow> ints3 env (split_on 45 (hd (m_groups m)))
                          | None \<Rightarrow>
                              Inr (try_formats env (take 16 s)
                                     [Fmt_ymd_hm, Fmt_ymd, Fmt_dots, Fmt_slashes])))))"

text \<open>The shape \<^verbatim>\<open>YYYY-MM-DD\<close>: ten characters, ASCII digits but for the two hyphens.\<close>

definition ascii_digit :: "int \<Rightarrow> bool" where
  "ascii_digit c \<longleftrightarrow> 48 \<le> c \<and> c \<le> 57"

definition date_shape :: "ustr \<Rightarrow> bool" where
  "date_shape r \<longleftrightarrow>
     length r = 10 \<and> r ! 4 = 45 \<and> r ! 7 = 45 \<and>
     list_all ascii_digit (take 4 r @ take 2 (drop 5 r) @ drop 8 r)"

section \<open>Sorting the collected notices (main.py)\<close>

text \<open>
  \<^verbatim>\<open>_parse_date_for_sort(s)\<close>; the argument is \<^verbatim>\<open>x.get("date")\<close>, \<open>None\<close> when the key is
  absent.
\<close>

definition parse_date_for_sort :: "pyenv \<Rightarrow> ustr option \<Rightarrow> datetime" where
  "parse_date_for_sort env s =
     (case s of
        None \<Rightarrow> datetime_min
      | Some s \<Rightarrow>
          if s = [] then datetime_min
          else (let s = strip s
                in case strptime env (take 16 s) Fmt_ymd_hm of
                     Some dt \<Rightarrow> dt
                   | None \<Rightarrow>
                       (case strptime env (take 16 s) Fmt_ymd of
                          Some dt \<Rightarrow> dt
                        | None \<Rightarrow> datetime_min)))"

text \<open>
  \<^verbatim>\<open>datetime.timestamp()\<close> of a naive \<^verbatim>\<open>datetime\<close>, as CPython computes it
  (\<^verbatim>\<open>local_to_seconds\<close> of \<^verbatim>\<open>_datetimemodule.c\<close>, with \<^verbatim>\<open>fold = 0\<close>). Times are counted in
  seconds from the start of the day before 0001-01-01: \<open>utc_to_seconds\<close> of a date is its
  proleptic Gregorian ordinal times 86400 plus the time of day, and the epoch of 1970 is
  at \<open>719163 * 86400\<close>. \<open>local_seconds x\<close> is the local civil time at the instant \<open>x\<close>, again in
  seconds; it raises \<^verbatim>\<open>ValueError\<close> when that time lies outside the years 1 to 9999.
\<close>

definition days_before_year :: "int \<Rightarrow> int" where
  "days_before_year y = (y - 1) * 365 + (y - 1) div 4 - (y - 1) div 100 + (y - 1) div 400"

definition days_before_month :: "int \<Rightarrow> int \<Rightarrow> int" where
  "days_before_month y m = sum_list (map (days_in_month y) [1 .. m - 1])"

definition ymd_to_ord :: "int \<Rightarrow> int \<Rightarrow> int \<Rightarrow> int" where
  "ymd_to_ord y m d = days_before_year y + days_before_month y m + d"

definition utc_to_seconds :: "datetime \<Rightarrow> int" where
  "utc_to_seconds dt =
     ((ymd_to_ord (dt_year dt) (dt_month dt) (dt_day dt) * 24 + dt_hour dt) * 60
        + dt_minute dt) * 60 + dt_second dt"

definition FIRST_SECOND :: int where
  "FIRST_SECOND = 86400"

definition LAST_SECOND :: int where
  "LAST_SECOND = 3652059 * 86400 + 86399"

definition local_seconds :: "pyenv \<Rightarrow> int \<Rightarrow> pyexn + int" where
  "local_seconds env x =
     (let v = x + utc_offset env x
      in if v < FIRST_SECOND \<or> LAST_SECOND < v then Inl (OtherError (u ''ValueError'')) else Inr v)"

definition local_to_seconds_rest :: "pyenv \<Rightarrow> int \<Rightarrow> int \<Rightarrow> int \<Rightarrow> int \<Rightarrow> pyexn + int" where
  "local_to_seconds_rest env t u1 t1 b =
     (let u2 = t - b
      in case local_seconds env u2 of
           Inl e \<Rightarrow> Inl e
         | Inr t2 \<Rightarrow> if t2 = t then Inr u2 else if t1 = t then Inr u1 else Inr (max u1 u2))"

definition local_to_seconds :: "pyenv \<Rightarrow> datetime \<Rightarrow> pyexn + int" where
  "local_to_seconds env dt =
     (let t = utc_to_seconds dt
      in case local_seconds env t of
           Inl e \<Rightarrow> Inl e
         | Inr lt \<Rightarrow>
            (let a = lt - t; u1 = t - a
             in case local_seconds env u1 of
                  Inl e \<Rightarrow> Inl e
                | Inr t1 \<Rightarrow>
                    if t1 = t then
                      (let u2 = u1 - 86400
                       in case local_seconds env u2 of
                            Inl e \<Rightarrow> Inl e
                          | Inr lt2 \<Rightarrow>
                              (let b = lt2 - u2
                               in if a = b then Inr u1
                                  else local_to_seconds_rest env t u1 t1 b))
                    else local_to_seconds_rest env t u1 t1 (t1 - u1)))"

definition timestamp :: "pyenv \<Rightarrow> datetime \<Rightarrow> pyexn + int" where
  "timestamp env dt =
     (case local_to_seconds env dt of Inl e \<Rightarrow> Inl e | Inr s \<Rightarrow> Inr (s - 719163 * 86400))"

text \<open>
  A notice as the sort of \<^verbatim>\<open>collect\<close> reads it: \<^verbatim>\<open>x.get("score", 0)\<close>, \<^verbatim>\<open>x.get("date")\<close> and
  \<^verbatim>\<open>x.get("title", "")\<close>. The key of the sort is
  \<^verbatim>\<open>(-score, -int(_parse_date_for_sort(date).timestamp()), title)\<close>; tuples and strings
  compare lexicographically.
\<close>

record notice =
  n_score :: "int option"
  n_date :: "ustr option"
  n_title :: "ustr option"

definition key_of :: "pyenv \<Rightarrow> notice \<Rightarrow> pyexn + int \<times> int \<times> ustr" where
  "key_of env x =
     (case timestamp env (parse_date_for_sort env (n_date x)) of
        Inl e \<Rightarrow> Inl e
      | Inr ts \<Rightarrow>
          Inr (- (case n_score x of None \<Rightarrow> 0 | Some sc \<Rightarrow> sc), - ts,
               (case n_title x of None \<Rightarrow> [] | Some t \<Rightarrow> t)))"

text \<open>
  \<^verbatim>\<open>dedup.sort(key=...)\<close>: the keys of all elements are computed first, in the order of the
  list, and an exception of one of them ends the call; then the list is sorted by the
  keys, elements with equal keys keeping their order.
\<close>

fun keys_of :: "pyenv \<Rightarrow> notice list \<Rightarrow> pyexn + (int \<times> int \<times> ustr) list" where
  "keys_of env [] = Inr []"
| "keys_of env (x # xs) =
     (case key_of env x of
        Inl e \<Rightarrow> Inl e
      | Inr k \<Rightarrow> (case keys_of env xs of Inl e \<Rightarrow> Inl e | Inr ks \<Rightarrow> Inr (k # ks)))"

definition collect_sort :: "pyenv \<Rightarrow> notice list \<Rightarrow> pyexn + notice list" where
  "collect_sort env xs =
     (case keys_of env xs of
        Inl e \<Rightarrow> Inl e
      | Inr ks \<Rightarrow> Inr (map snd (sort_key fst (zip ks xs))))"

text \<open>The example of the specification: scores 5, 5, 3 and dates 2025-01-01, 2024-01-01,
  absent.\<close>

definition example_notices :: "notice list" where
  "example_notices =
     [\<lparr>n_score = Some 5, n_date = Some (u ''2025-01-01''), n_title = Some (u ''a'')\<rparr>,
      \<lparr>n_score = Some 5, n_date = Some (u ''2024-01-01''), n_title = Some (u ''b'')\<rparr>,
      \<lparr>n_score = Some 3, n_date = None, n_title = Some (u ''c'')\<rparr>]"
section \<open>Refresh endpoints of the web application (notice\_webapp/app.py)\<close>

text \<open>
  The module keeps one dictionary of guard flags,
  \<^verbatim>\<open>_FLAGS = {"all": False, "notices": False, "events": False}\<close>,
  and three POST handlers, one per endpoint, of the same shape:

  \<^verbatim>\<open>if not _FLAGS[k]:\<close>
  \<^verbatim>\<open>    _FLAGS[k] = True\<close>
  \<^verbatim>\<open>    threading.Thread(target=_job, daemon=True).start()\<close>
  \<^verbatim>\<open>return redirect(...)\<close>

  where \<^verbatim>\<open>_job\<close> runs the collection(s) and, in its \<^verbatim>\<open>finally\<close> block, sleeps and assigns
  \<^verbatim>\<open>_FLAGS[k] = False\<close>. The server runs each request in a thread of its own and the
  handlers take no lock, so the three statements of a handler are three steps, between
  which other handlers and jobs may run. The state holds the three flags and, per
  position in the code, the threads that are there: the handlers that have found their
  flag clear and have not set it yet (\<open>tested\<close>), the handlers that have set the flag and
  have not started their thread yet (\<open>setting\<close>), and the jobs that have been started
  and have not assigned \<^verbatim>\<open>False\<close> yet (\<open>in_flight\<close>).
\<close>

datatype endpoint = Ep_all | Ep_notices | Ep_events

record refresh_state =
  flag_all :: bool
  flag_notices :: bool
  flag_events :: bool
  tested :: "endpoint list"
  setting :: "endpoint list"
  in_flight :: "endpoint list"

datatype refresh_event = Test endpoint | SetFlag endpoint | Start endpoint | Finish endpoint

definition initial_state :: refresh_state where
  "initial_state = \<lparr>flag_all = False, flag_notices = False, flag_events = False,
                     tested = [], setting = [], in_flight = []\<rparr>"

fun get_flag :: "refresh_state \<Rightarrow> endpoint \<Rightarrow> bool" where
  "get_flag s Ep_all = flag_all s"
| "get_flag s Ep_notices = flag_notices s"
| "get_flag s Ep_events = flag_events s"

fun set_flag :: "refresh_state \<Rightarrow> endpoint \<Rightarrow> bool \<Rightarrow> refresh_state" where
  "set_flag s Ep_all b = s\<lparr>flag_all := b\<rparr>"
| "set_flag s Ep_notices b = s\<lparr>flag_notices := b\<rparr>"
| "set_flag s Ep_events b = s\<lparr>flag_events := b\<rparr>"

text \<open>
  One step of one thread.
  \<^item> \<open>Test k\<close>: a handler of endpoint \<open>k\<close> evaluates \<^verbatim>\<open>not _FLAGS[k]\<close>; when the flag is set
    the handler goes to its \<^verbatim>\<open>return\<close> and changes nothing.
  \<^item> \<open>SetFlag k\<close>: a handler that has found the flag clear assigns \<^verbatim>\<open>_FLAGS[k] = True\<close>.
  \<^item> \<open>Start k\<close>: a handler that has set the flag starts the thread of its job.
  \<^item> \<open>Finish k\<close>: a job of endpoint \<open>k\<close> assigns \<^verbatim>\<open>_FLAGS[k] = False\<close> and ends.

  A step for which no thread is at that position changes nothing.
\<close>

fun step :: "refresh_state \<Rightarrow> refresh_event \<Rightarrow> refresh_state" where
  "step s (Test k) = (if \<not> get_flag s k then s\<lparr>tested := tested s @ [k]\<rparr> else s)"
| "step s (SetFlag k) =
     (if k \<in> set (tested s)
      then (set_flag s k True)\<lparr>tested := remove1 k (tested s), setting := setting s @ [k]\<rparr>
      else s)"
| "step s (Start k) =
     (if k \<in> set (setting s)
      then s\<lparr>setting := remove1 k (setting s), in_flight := in_flight s @ [k]\<rparr>
      else s)"
| "step s (Finish k) =
     (if k \<in> set (in_flight s)
      then (set_flag s k False)\<lparr>in_flight := remove1 k (in_flight s)\<rparr>
      else s)"

definition run_from :: "refresh_state \<Rightarrow> refresh_event list \<Rightarrow> refresh_state" where
  "run_from s evs = foldl step s evs"

definition run :: "refresh_event list \<Rightarrow> refresh_state" where
  "run evs = run_from initial_state evs"

text \<open>
  \<^verbatim>\<open>refresh_all\<close>, \<^verbatim>\<open>refresh_notices\<close> and \<^verbatim>\<open>refresh_events\<close> when nothing else runs between
  the statements of the handler.
\<close>

definition refresh :: "endpoint \<Rightarrow> refresh_state \<Rightarrow> refresh_state" where
  "refresh k s = run_from s [Test k, SetFlag k, Start k]"

text \<open>
  The handlers of an endpoint do not overlap in a sequence of steps when no handler of
  the endpoint tests the flag while another handler of the same endpoint is between its
  test and its assignment.
\<close>

fun no_overlap :: "refresh_state \<Rightarrow> refresh_event list \<Rightarrow> bool" where
  "no_overlap s [] = True"
| "no_overlap s (e # es) =
     ((case e of Test k \<Rightarrow> k \<notin> set (tested s) | SetFlag k \<Rightarrow> True | Start k \<Rightarrow> True
       | Finish k \<Rightarrow> True) \<and> no_overlap (step s e) es)"

text \<open>
  The jobs: \<^verbatim>\<open>refresh_all\<close> runs \<^verbatim>\<open>run_collection\<close> and then
  \<^verbatim>\<open>run_events_collection\<close>; \<^verbatim>\<open>refresh_notices\<close> runs \<^verbatim>\<open>run_collection\<close>;
  \<^verbatim>\<open>refresh_events\<close> runs \<^verbatim>\<open>run_events_collection\<close>.
\<close>

fun runs_collection :: "endpoint \<Rightarrow> bool" where
  "runs_collection Ep_all = True"
| "runs_collection Ep_notices = True"
| "runs_collection Ep_events = False"
section \<open>The matcher depends on the Unicode tables only\<close>

lemma citem_has_env:
  "nd_zeros e2 = nd_zeros e1 \<Longrightarrow> citem_has e2 i c = citem_has e1 i c"
  by (cases i) (simp_all add: isdecimal_def)

lemma rmatch_env:
  "ci_eq e2 = ci_eq e1 \<Longrightarrow> nd_zeros e2 = nd_zeros e1 \<Longrightarrow> rmatch e2 ic r s = rmatch e1 ic r s"
proof (induction e1 ic r s rule: rmatch.induct)
  case (3 env ic neg items s)
  then show ?case by (simp add: citem_has_env [of e2 env] split: list.splits)
next
  case (4 env ic a b s)
  then show ?case by (auto intro!: arg_cong [where f = concat] map_cong)
next
  case (6 env ic a s)
  have "rmatch e2 ic (Star a) s =
     concat (map (\<lambda>(g1, s1). if length s1 < length s
                              then map (\<lambda>(g2, s2). (g1 @ g2, s2)) (rmatch e2 ic (Star a) s1)
                              else [])
                 (rmatch e2 ic a s)) @ [([], s)]"
    by (rule rmatch.simps)
  then show ?case
    using 6 by (auto intro!: arg_cong [where f = concat] map_cong
        simp del: rmatch.simps(6) simp: rmatch.simps(6) [of env])
qed (simp_all split: list.splits)

lemma match_at_env:
  "ci_eq e2 = ci_eq e1 \<Longrightarrow> nd_zeros e2 = nd_zeros e1 \<Longrightarrow>
   match_at e2 ic r pre s = match_at e1 ic r pre s"
  by (simp add: match_at_def rmatch_env [of e2 e1])

lemma search_from_env:
  "ci_eq e2 = ci_eq e1 \<Longrightarrow> nd_zeros e2 = nd_zeros e1 \<Longrightarrow>
   search_from e2 ic r pre s = search_from e1 ic r pre s"
  by (induction s arbitrary: pre) (simp_all add: match_at_env [of e2 e1] split: option.split)

lemma search_env:
  "ci_eq e2 = ci_eq e1 \<Longrightarrow> nd_zeros e2 = nd_zeros e1 \<Longrightarrow> search e2 ic r s = search e1 ic r s"
  by (simp add: search_def search_from_env [of e2 e1])

lemma finditer_env:
  "ci_eq e2 = ci_eq e1 \<Longrightarrow> nd_zeros e2 = nd_zeros e1 \<Longrightarrow> finditer e2 ic r s = finditer e1 ic r s"
proof (induction e1 ic r s rule: finditer.induct)
  case (1 env ic r s)
  have eq: "search e2 ic r s = search env ic r s"
    using "1.prems" by (simp add: search_env [of e2 env])
  show ?case
  proof (cases "search env ic r s")
    case None
    then show ?thesis
      using eq by (simp add: finditer.simps [of e2 ic r s] finditer.simps [of env ic r s])
  next
    case (Some m)
    show ?thesis
    proof (cases "length (m_rest m) < length s")
      case True
      then have "finditer e2 ic r (m_rest m) = finditer env ic r (m_rest m)"
        using "1.IH"(1) [OF Some True] "1.prems" by simp
      with Some eq True show ?thesis
        by (simp add: finditer.simps [of e2 ic r s] finditer.simps [of env ic r s])
    next
      case False
      show ?thesis
      proof (cases s)
        case Nil
        with Some eq False show ?thesis
          by (simp add: finditer.simps [of e2 ic r "[]"] finditer.simps [of env ic r "[]"])
      next
        case (Cons c t)
        then have "finditer e2 ic r t = finditer env ic r t"
          using "1.IH"(2) [OF Some False Cons] "1.prems" by simp
        with Some eq False Cons show ?thesis
          by (simp add: finditer.simps [of e2 ic r "c # t"] finditer.simps [of env ic r "c # t"])
      qed
    qed
  qed
qed

section \<open>Properties of the relevance scorer\<close>

lemma pts_le_4: "pts xs \<le> 4"
  by (simp add: pts_def)

lemma score_notice_parts:
  "fst (score_notice env meta extra_text) =
     agency_points meta + include_contribution env (hay env meta extra_text)
     + exclude_contribution env (hay env meta extra_text)
     + digital_bonus env (hay env meta extra_text)
     + conservative_penalty env meta (hay env meta extra_text)"
  by (simp add: score_notice_def agency_points_def include_contribution_def
      exclude_contribution_def digital_bonus_def conservative_penalty_def Let_def)

lemma include_contribution_card:
  "include_contribution env h = int (min 4 (card (set (uniq env (finditer env True inc_regex h)))))"
  by (simp add: include_contribution_def pts_def uniq_def Let_def length_remdups_card_conv)

lemma exclude_contribution_card:
  "exclude_contribution env h = - int (min 4 (card (set (uniq env (finditer env True exc_regex h)))))"
  by (simp add: exclude_contribution_def pts_def uniq_def Let_def length_remdups_card_conv)

lemma keyword_bounds_aux:
  "0 \<le> include_contribution env h \<and> include_contribution env h \<le> 4 \<and>
   - 4 \<le> exclude_contribution env h \<and> exclude_contribution env h \<le> 0"
  unfolding include_contribution_card exclude_contribution_card by simp

text \<open>
  C3 (as amended). In \<^verbatim>\<open>score_notice\<close> the include contribution is the number of distinct
  lower-cased texts matched by the combined include regex, capped at 4, so it lies in
  \<open>[0, 4]\<close>; the exclude contribution is minus the number of distinct lower-cased texts
  matched by the combined exclude regex, capped at 4, so it lies in \<open>[-4, 0]\<close>; their sum
  lies in \<open>[-4, 4]\<close>; and the score is the sum of the agency points, these two
  contributions, the context bonus and the conservative penalty.
\<close>

theorem keyword_contribution_bounds:
  "include_contribution env h = int (min 4 (card (set (uniq env (finditer env True inc_regex h))))) \<and>
   exclude_contribution env h = - int (min 4 (card (set (uniq env (finditer env True exc_regex h))))) \<and>
   0 \<le> include_contribution env h \<and> include_contribution env h \<le> 4 \<and>
   - 4 \<le> exclude_contribution env h \<and> exclude_contribution env h \<le> 0 \<and>
   - 4 \<le> include_contribution env h + exclude_contribution env h \<and>
   include_contribution env h + exclude_contribution env h \<le> 4 \<and>
   fst (score_notice env meta extra_text) =
     agency_points meta + include_contribution env (hay env meta extra_text)
     + exclude_contribution env (hay env meta extra_text)
     + digital_bonus env (hay env meta extra_text)
     + conservative_penalty env meta (hay env meta extra_text)"
proof -
  have i: "include_contribution env h = int (min 4 (card (set (uniq env (finditer env True inc_regex h)))))"
    by (rule include_contribution_card)
  have x: "exclude_contribution env h = - int (min 4 (card (set (uniq env (finditer env True exc_regex h)))))"
    by (rule exclude_contribution_card)
  have ib: "0 \<le> include_contribution env h \<and> include_contribution env h \<le> 4"
    unfolding i by simp
  have xb: "- 4 \<le> exclude_contribution env h \<and> exclude_contribution env h \<le> 0"
    unfolding x by simp
  from i x ib xb score_notice_parts [of env meta extra_text] show ?thesis
    by (intro conjI) linarith+
qed

text \<open>
  C3 (as stated) fails: the count is over distinct matched texts, not over patterns. The
  title below (U+B514 U+C9C0 U+D138 U+D5EC U+C2A4, a space, and the same five syllables with
  a space after the third) matches the second include pattern twice, with and without
  the space: one pattern matches, and the include contribution is 2.
\<close>

theorem keyword_contribution_counterexample:
  "hay ascii_env (Map.empty(K_TITLE \<mapsto>
       [46356, 51648, 53560, 54764, 49828, 32, 46356, 51648, 53560, 32, 54764, 49828])) []
     = [46356, 51648, 53560, 54764, 49828, 32, 46356, 51648, 53560, 32, 54764, 49828] \<and>
   finditer ascii_env True inc_regex
       [46356, 51648, 53560, 54764, 49828, 32, 46356, 51648, 53560, 32, 54764, 49828]
     = [[46356, 51648, 53560, 54764, 49828], [46356, 51648, 53560, 32, 54764, 49828]] \<and>
   include_contribution ascii_env
       [46356, 51648, 53560, 54764, 49828, 32, 46356, 51648, 53560, 32, 54764, 49828] = 2 \<and>
   spec_include_contribution ascii_env
       [46356, 51648, 53560, 54764, 49828, 32, 46356, 51648, 53560, 32, 54764, 49828] = 1"
  by code_simp

lemma hay_set_order [simp]: "hay (env\<lparr>set_order := ord\<rparr>) meta extra_text = hay env meta extra_text"
  by (simp add: hay_def text_of_parts_def)

lemma finditer_set_order [simp]:
  "finditer (env\<lparr>set_order := ord\<rparr>) ic r s = finditer env ic r s"
  by (rule finditer_env) simp_all

lemma has_digital_set_order [simp]: "has_digital (env\<lparr>set_order := ord\<rparr>) h = has_digital env h"
  by (simp add: has_digital_def search_env [of "env\<lparr>set_order := ord\<rparr>" env])

lemma uniq_set_order [simp]: "uniq (env\<lparr>set_order := ord\<rparr>) ms = uniq env ms"
  by (simp add: uniq_def)

lemma score_notice_reason_count:
  "length (snd (score_notice env meta extra_text)) =
     (if is_primary meta \<or> is_secondary meta then 1 else 0)
     + (if finditer env True inc_regex (hay env meta extra_text) \<noteq> [] then 1 else 0)
     + (if finditer env True exc_regex (hay env meta extra_text) \<noteq> [] then 1 else 0)
     + (if has_digital env (hay env meta extra_text) then 1 else 0)
     + (if is_secondary meta \<and> finditer env True inc_regex (hay env meta extra_text) = [] then 1 else 0)"
  by (simp add: score_notice_def Let_def)

lemma set_repr_set_order:
  "orda xs = ordb xs \<Longrightarrow>
   set_repr (env\<lparr>set_order := orda\<rparr>) xs = set_repr (env\<lparr>set_order := ordb\<rparr>) xs"
  by (simp add: set_repr_def)

lemma score_notice_reasons:
  "snd (score_notice env meta extra_text) =
     (if is_primary meta then [R_PRIMARY] else if is_secondary meta then [R_SECONDARY] else []) @
     (if finditer env True inc_regex (hay env meta extra_text) \<noteq> []
      then [keyword_reason env R_INC (u ''(+'')
              (uniq env (finditer env True inc_regex (hay env meta extra_text)))]
      else []) @
     (if finditer env True exc_regex (hay env meta extra_text) \<noteq> []
      then [keyword_reason env R_EXC (u ''(-'')
              (uniq env (finditer env True exc_regex (hay env meta extra_text)))]
      else []) @
     (if has_digital env (hay env meta extra_text) then [R_DIGITAL] else []) @
     (if is_secondary meta \<and> finditer env True inc_regex (hay env meta extra_text) = []
      then [R_PENALTY] else [])"
  by (simp add: score_notice_def keyword_reason_def Let_def)

lemma score_notice_fst_set_order:
  "fst (score_notice (env\<lparr>set_order := ord\<rparr>) meta extra_text)
     = fst (score_notice env meta extra_text)"
  by (simp add: score_notice_parts include_contribution_def exclude_contribution_def
      digital_bonus_def conservative_penalty_def Let_def)

lemma keyword_reason_set_order:
  "orda xs = ordb xs \<Longrightarrow>
   keyword_reason (env\<lparr>set_order := orda\<rparr>) label sign xs
     = keyword_reason (env\<lparr>set_order := ordb\<rparr>) label sign xs"
  by (simp add: keyword_reason_def set_repr_set_order [where orda = orda and ordb = ordb and xs = xs and env = env])

text \<open>
  C7 (as amended). Within a process \<^verbatim>\<open>score_notice\<close> is a function of its inputs. Between
  two processes, which differ in the iteration order of sets, the score is the same and
  the reasons agree one by one: two reasons at the same position are the same text, or
  they are the keyword reasons of the same label over the same matched keywords, which
  differ at most in the order in which the \<^verbatim>\<open>repr\<close> of the set lists them. When the two
  processes iterate the set of matched include keywords and the set of matched exclude
  keywords in the same order, the whole result is the same.
\<close>

theorem score_notice_across_processes:
  "fst (score_notice (env\<lparr>set_order := orda\<rparr>) meta extra_text)
     = fst (score_notice (env\<lparr>set_order := ordb\<rparr>) meta extra_text) \<and>
   list_all2
     (reason_agrees (env\<lparr>set_order := orda\<rparr>) (env\<lparr>set_order := ordb\<rparr>)
        (uniq env (finditer env True inc_regex (hay env meta extra_text)))
        (uniq env (finditer env True exc_regex (hay env meta extra_text))))
     (snd (score_notice (env\<lparr>set_order := orda\<rparr>) meta extra_text))
     (snd (score_notice (env\<lparr>set_order := ordb\<rparr>) meta extra_text)) \<and>
   (orda (uniq env (finditer env True inc_regex (hay env meta extra_text)))
      = ordb (uniq env (finditer env True inc_regex (hay env meta extra_text))) \<and>
    orda (uniq env (finditer env True exc_regex (hay env meta extra_text)))
      = ordb (uniq env (finditer env True exc_regex (hay env meta extra_text)))
    \<longrightarrow> score_notice (env\<lparr>set_order := orda\<rparr>) meta extra_text
          = score_notice (env\<lparr>set_order := ordb\<rparr>) meta extra_text)"
proof -
  let ?e1 = "env\<lparr>set_order := orda\<rparr>" and ?e2 = "env\<lparr>set_order := ordb\<rparr>"
  let ?iu = "uniq env (finditer env True inc_regex (hay env meta extra_text))"
  let ?xu = "uniq env (finditer env True exc_regex (hay env meta extra_text))"
  let ?R = "reason_agrees ?e1 ?e2 ?iu ?xu"
  have f: "fst (score_notice ?e1 meta extra_text) = fst (score_notice ?e2 meta extra_text)"
    by (simp add: score_notice_fst_set_order)
  have same: "list_all2 ?R xs xs" for xs
    by (simp add: list_all2_conv_all_nth reason_agrees_def)
  have l: "list_all2 ?R (snd (score_notice ?e1 meta extra_text))
                        (snd (score_notice ?e2 meta extra_text))"
    unfolding score_notice_reasons [of ?e1] score_notice_reasons [of ?e2]
    by (intro list_all2_appendI) (simp_all add: same reason_agrees_def)
  have e: "score_notice ?e1 meta extra_text = score_notice ?e2 meta extra_text"
    if o: "orda ?iu = ordb ?iu" "orda ?xu = ordb ?xu"
  proof -
    have "snd (score_notice ?e1 meta extra_text) = snd (score_notice ?e2 meta extra_text)"
      unfolding score_notice_reasons [of ?e1] score_notice_reasons [of ?e2]
      using o keyword_reason_set_order
              [where orda = orda and ordb = ordb and xs = ?iu and env = env and label = R_INC
                 and sign = "u ''(+''"]
            keyword_reason_set_order
              [where orda = orda and ordb = ordb and xs = ?xu and env = env and label = R_EXC
                 and sign = "u ''(-''"]
      by simp
    with f show ?thesis by (simp add: prod_eq_iff)
  qed
  from f l e show ?thesis by blast
qed

text \<open>
  An instance: with the title \<^verbatim>\<open>EMR\<close> one keyword is matched, the two iteration orders
  agree on it, and the two processes return the same result.
\<close>

theorem score_notice_across_processes_witness:
  "remdups (uniq ascii_env (finditer ascii_env True inc_regex
       (hay ascii_env (Map.empty(K_TITLE \<mapsto> u ''EMR'')) [])))
     = rev (remdups (uniq ascii_env (finditer ascii_env True inc_regex
         (hay ascii_env (Map.empty(K_TITLE \<mapsto> u ''EMR'')) [])))) \<and>
   remdups (uniq ascii_env (finditer ascii_env True exc_regex
       (hay ascii_env (Map.empty(K_TITLE \<mapsto> u ''EMR'')) [])))
     = rev (remdups (uniq ascii_env (finditer ascii_env True exc_regex
         (hay ascii_env (Map.empty(K_TITLE \<mapsto> u ''EMR'')) [])))) \<and>
   score_notice (ascii_env\<lparr>set_order := remdups\<rparr>) (Map.empty(K_TITLE \<mapsto> u ''EMR'')) []
     = score_notice (ascii_env\<lparr>set_order := (\<lambda>xs. rev (remdups xs))\<rparr>)
         (Map.empty(K_TITLE \<mapsto> u ''EMR'')) []"
proof -
  have o: "remdups (uniq ascii_env (finditer ascii_env True inc_regex
       (hay ascii_env (Map.empty(K_TITLE \<mapsto> u ''EMR'')) [])))
     = rev (remdups (uniq ascii_env (finditer ascii_env True inc_regex
         (hay ascii_env (Map.empty(K_TITLE \<mapsto> u ''EMR'')) []))))"
    "remdups (uniq ascii_env (finditer ascii_env True exc_regex
       (hay ascii_env (Map.empty(K_TITLE \<mapsto> u ''EMR'')) [])))
     = rev (remdups (uniq ascii_env (finditer ascii_env True exc_regex
         (hay ascii_env (Map.empty(K_TITLE \<mapsto> u ''EMR'')) []))))"
    by code_simp+
  from score_notice_across_processes
         [where env = ascii_env and orda = remdups and ordb = "\<lambda>xs. rev (remdups xs)"
            and meta = "Map.empty(K_TITLE \<mapsto> u ''EMR'')" and extra_text = "[]"] o
  show ?thesis by blast
qed

text \<open>
  C7 (as stated) fails for the reasons: with the title \<^verbatim>\<open>EMR EHR\<close> the keyword reason ends
  in \<^verbatim>\<open>{'emr', 'ehr'}(+2)\<close> in a process that iterates the set in one order and in
  \<^verbatim>\<open>{'ehr', 'emr'}(+2)\<close> in a process that iterates it in the other.
\<close>

theorem score_notice_reasons_counterexample:
  "finditer ascii_env True inc_regex (hay ascii_env (Map.empty(K_TITLE \<mapsto> u ''EMR EHR'')) [])
     = [u ''emr'', u ''ehr''] \<and>
   snd (score_notice ascii_env (Map.empty(K_TITLE \<mapsto> u ''EMR EHR'')) [])
     = [R_INC @ [123, 39] @ u ''emr'' @ [39, 44, 32, 39] @ u ''ehr'' @ [39, 125] @ u ''(+2)''] \<and>
   snd (score_notice ascii_env2 (Map.empty(K_TITLE \<mapsto> u ''EMR EHR'')) [])
     = [R_INC @ [123, 39] @ u ''ehr'' @ [39, 44, 32, 39] @ u ''emr'' @ [39, 125] @ u ''(+2)''] \<and>
   snd (score_notice ascii_env (Map.empty(K_TITLE \<mapsto> u ''EMR EHR'')) [])
     \<noteq> snd (score_notice ascii_env2 (Map.empty(K_TITLE \<mapsto> u ''EMR EHR'')) [])"
  by code_simp

lemma conservative_penalty_range:
  "- 1 \<le> conservative_penalty env meta h \<and> conservative_penalty env meta h \<le> 0"
  by (simp add: conservative_penalty_def)

lemma uniq_empty_iff: "set (uniq env ms) \<noteq> {} \<Longrightarrow> ms \<noteq> []"
  by (auto simp: uniq_def)

lemma min4_card_insert:
  "finite A \<Longrightarrow> k \<notin> A \<Longrightarrow> int (min 4 (card (insert k A))) = min 4 (int (min 4 (card A)) + 1)"
  by simp

text \<open>
  C8 (as amended). Take an input and a second one of the same agency tier.

  If the second matches exactly one more distinct include keyword, its include
  contribution is one higher, up to the cap of 4; and if moreover its exclude contribution
  is not lower and it keeps the context bonus of the first, it scores at least as much as
  the first (the conservative penalty cannot apply to it).

  If the second matches exactly one more distinct exclude keyword, its exclude
  contribution is one lower, down to the floor of -4; and if moreover its include matches
  are those of the first, and it gains no context bonus or the exclude contribution of
  the first is above the floor, it scores at most as much as the first.
\<close>

theorem score_monotone_in_keywords:
  "(set (uniq env (finditer env True inc_regex (hay env mi ei)))
      = insert k (set (uniq env (finditer env True inc_regex (hay env m e)))) \<and>
    k \<notin> set (uniq env (finditer env True inc_regex (hay env m e)))
    \<longrightarrow> include_contribution env (hay env mi ei)
          = min 4 (include_contribution env (hay env m e) + 1)) \<and>
   (set (uniq env (finditer env True inc_regex (hay env mi ei)))
      = insert k (set (uniq env (finditer env True inc_regex (hay env m e)))) \<and>
    k \<notin> set (uniq env (finditer env True inc_regex (hay env m e))) \<and>
    is_primary mi = is_primary m \<and> is_secondary mi = is_secondary m \<and>
    exclude_contribution env (hay env m e) \<le> exclude_contribution env (hay env mi ei) \<and>
    (has_digital env (hay env m e) \<longrightarrow> has_digital env (hay env mi ei))
    \<longrightarrow> fst (score_notice env m e) \<le> fst (score_notice env mi ei)) \<and>
   (set (uniq env (finditer env True exc_regex (hay env mx ex)))
      = insert k' (set (uniq env (finditer env True exc_regex (hay env m e)))) \<and>
    k' \<notin> set (uniq env (finditer env True exc_regex (hay env m e)))
    \<longrightarrow> exclude_contribution env (hay env mx ex)
          = max (- 4) (exclude_contribution env (hay env m e) - 1)) \<and>
   (set (uniq env (finditer env True exc_regex (hay env mx ex)))
      = insert k' (set (uniq env (finditer env True exc_regex (hay env m e)))) \<and>
    k' \<notin> set (uniq env (finditer env True exc_regex (hay env m e))) \<and>
    is_primary mx = is_primary m \<and> is_secondary mx = is_secondary m \<and>
    finditer env True inc_regex (hay env mx ex) = finditer env True inc_regex (hay env m e) \<and>
    ((has_digital env (hay env mx ex) \<longrightarrow> has_digital env (hay env m e)) \<or>
     - 4 < exclude_contribution env (hay env m e))
    \<longrightarrow> fst (score_notice env mx ex) \<le> fst (score_notice env m e))"
proof -
  let ?h = "hay env m e" and ?hi = "hay env mi ei" and ?hx = "hay env mx ex"
  have i: "include_contribution env ?hi = min 4 (include_contribution env ?h + 1)"
    if "set (uniq env (finditer env True inc_regex ?hi))
          = insert k (set (uniq env (finditer env True inc_regex ?h)))"
       "k \<notin> set (uniq env (finditer env True inc_regex ?h))"
    unfolding include_contribution_card that(1)
    using that(2) by (simp add: min4_card_insert)
  have ib: "0 \<le> include_contribution env ?h \<and> include_contribution env ?h \<le> 4"
    using keyword_bounds_aux [of env ?h] by simp
  have up: "fst (score_notice env m e) \<le> fst (score_notice env mi ei)"
    if more: "set (uniq env (finditer env True inc_regex ?hi))
          = insert k (set (uniq env (finditer env True inc_regex ?h)))"
       "k \<notin> set (uniq env (finditer env True inc_regex ?h))"
      and ag: "is_primary mi = is_primary m" "is_secondary mi = is_secondary m"
      and ex: "exclude_contribution env ?h \<le> exclude_contribution env ?hi"
      and dg: "has_digital env ?h \<longrightarrow> has_digital env ?hi"
  proof -
    have "finditer env True inc_regex ?hi \<noteq> []"
      using more(1) by (intro uniq_empty_iff [of env]) simp
    then have pi: "conservative_penalty env mi ?hi = 0"
      by (simp add: conservative_penalty_def)
    have d: "digital_bonus env ?h \<le> digital_bonus env ?hi"
      using dg by (simp add: digital_bonus_def)
    from i [OF more] pi ib ex d ag conservative_penalty_range [of env m ?h]
    show ?thesis by (simp add: score_notice_parts agency_points_def min_def)
  qed
  have x: "exclude_contribution env ?hx = max (- 4) (exclude_contribution env ?h - 1)"
    if "set (uniq env (finditer env True exc_regex ?hx))
          = insert k' (set (uniq env (finditer env True exc_regex ?h)))"
       "k' \<notin> set (uniq env (finditer env True exc_regex ?h))"
    unfolding exclude_contribution_card that(1)
    using that(2) by (simp add: min_def max_def)
  have xb: "- 4 \<le> exclude_contribution env ?h \<and> exclude_contribution env ?h \<le> 0"
    using keyword_bounds_aux [of env ?h] by simp
  have down: "fst (score_notice env mx ex) \<le> fst (score_notice env m e)"
    if more: "set (uniq env (finditer env True exc_regex ?hx))
          = insert k' (set (uniq env (finditer env True exc_regex ?h)))"
       "k' \<notin> set (uniq env (finditer env True exc_regex ?h))"
      and ag: "is_primary mx = is_primary m" "is_secondary mx = is_secondary m"
      and inc: "finditer env True inc_regex ?hx = finditer env True inc_regex ?h"
      and dg: "(has_digital env ?hx \<longrightarrow> has_digital env ?h) \<or> - 4 < exclude_contribution env ?h"
  proof -
    have d: "digital_bonus env ?hx \<le> digital_bonus env ?h \<or>
             (- 4 < exclude_contribution env ?h \<and> digital_bonus env ?hx \<le> digital_bonus env ?h + 1)"
      using dg by (auto simp: digital_bonus_def)
    have p: "conservative_penalty env mx ?hx = conservative_penalty env m ?h"
            "include_contribution env ?hx = include_contribution env ?h"
      using inc ag by (simp_all add: conservative_penalty_def include_contribution_def)
    from x [OF more] xb d p ag show ?thesis
      by (auto simp add: score_notice_parts agency_points_def max_def)
  qed
  from i up x down show ?thesis by blast
qed

text \<open>
  Two instances. From the title \<^verbatim>\<open>emr\<close> to \<^verbatim>\<open>emr\<close> with U+C758 U+B8CC and \<^verbatim>\<open>ai\<close> appended (one
  more include keyword, which brings the context bonus): the score goes from 1 to 3. From
  the title U+D1A0 U+BAA9 to the same with U+C591 U+C790 U+D50C U+B7AB U+D3FC appended (one more
  exclude keyword, which brings the context bonus, above the floor): the score stays at -1.
\<close>

theorem score_monotone_in_keywords_witness:
  "include_contribution ascii_env
      (hay ascii_env (Map.empty(K_TITLE \<mapsto> u ''emr '' @ [51032, 47308] @ u '' ai'')) [])
     = min 4 (include_contribution ascii_env (hay ascii_env (Map.empty(K_TITLE \<mapsto> u ''emr'')) []) + 1) \<and>
   fst (score_notice ascii_env (Map.empty(K_TITLE \<mapsto> u ''emr'')) [])
     \<le> fst (score_notice ascii_env (Map.empty(K_TITLE \<mapsto> u ''emr '' @ [51032, 47308] @ u '' ai'')) []) \<and>
   fst (score_notice ascii_env (Map.empty(K_TITLE \<mapsto> u ''emr'')) []) = 1 \<and>
   fst (score_notice ascii_env (Map.empty(K_TITLE \<mapsto> u ''emr '' @ [51032, 47308] @ u '' ai'')) []) = 3 \<and>
   exclude_contribution ascii_env
      (hay ascii_env (Map.empty(K_TITLE \<mapsto> [53664, 47785, 32, 50577, 51088, 54540, 47019, 54268])) [])
     = max (- 4) (exclude_contribution ascii_env
                    (hay ascii_env (Map.empty(K_TITLE \<mapsto> [53664, 47785])) []) - 1) \<and>
   fst (score_notice ascii_env (Map.empty(K_TITLE \<mapsto> [53664, 47785, 32, 50577, 51088, 54540, 47019, 54268])) [])
     \<le> fst (score_notice ascii_env (Map.empty(K_TITLE \<mapsto> [53664, 47785])) []) \<and>
   fst (score_notice ascii_env (Map.empty(K_TITLE \<mapsto> [53664, 47785])) []) = - 1 \<and>
   fst (score_notice ascii_env (Map.empty(K_TITLE \<mapsto> [53664, 47785, 32, 50577, 51088, 54540, 47019, 54268])) []) = - 1"
proof -
  let ?m = "Map.empty(K_TITLE \<mapsto> u ''emr'')"
  let ?mi = "Map.empty(K_TITLE \<mapsto> u ''emr '' @ [51032, 47308] @ u '' ai'')"
  let ?n = "Map.empty(K_TITLE \<mapsto> [53664, 47785])"
  let ?nx = "Map.empty(K_TITLE \<mapsto> [53664, 47785, 32, 50577, 51088, 54540, 47019, 54268])"
  have i1: "set (uniq ascii_env (finditer ascii_env True inc_regex (hay ascii_env ?mi [])))
      = insert ([51032, 47308] @ u '' ai'')
          (set (uniq ascii_env (finditer ascii_env True inc_regex (hay ascii_env ?m []))))"
    by code_simp
  have i2: "[51032, 47308] @ u '' ai''
              \<notin> set (uniq ascii_env (finditer ascii_env True inc_regex (hay ascii_env ?m [])))"
    by code_simp
  have i3: "is_primary ?mi = is_primary ?m" "is_secondary ?mi = is_secondary ?m"
    by code_simp+
  have i4: "exclude_contribution ascii_env (hay ascii_env ?m [])
              \<le> exclude_contribution ascii_env (hay ascii_env ?mi [])"
    by code_simp
  have i5: "has_digital ascii_env (hay ascii_env ?m []) \<longrightarrow> has_digital ascii_env (hay ascii_env ?mi [])"
    by code_simp
  have x1: "set (uniq ascii_env (finditer ascii_env True exc_regex (hay ascii_env ?nx [])))
      = insert [50577, 51088, 54540, 47019, 54268]
          (set (uniq ascii_env (finditer ascii_env True exc_regex (hay ascii_env ?n []))))"
    by code_simp
  have x2: "[50577, 51088, 54540, 47019, 54268]
              \<notin> set (uniq ascii_env (finditer ascii_env True exc_regex (hay ascii_env ?n [])))"
    by code_simp
  have x3: "is_primary ?nx = is_primary ?n" "is_secondary ?nx = is_secondary ?n"
    by code_simp+
  have x4: "finditer ascii_env True inc_regex (hay ascii_env ?nx [])
              = finditer ascii_env True inc_regex (hay ascii_env ?n [])"
    by code_simp
  have x5: "- 4 < exclude_contribution ascii_env (hay ascii_env ?n [])"
    by code_simp
  have v: "fst (score_notice ascii_env ?m []) = 1" "fst (score_notice ascii_env ?mi []) = 3"
          "fst (score_notice ascii_env ?n []) = - 1" "fst (score_notice ascii_env ?nx []) = - 1"
    by code_simp+
  note t1 = score_monotone_in_keywords
    [where env = ascii_env and mi = ?mi and ei = "[]" and k = "[51032, 47308] @ u '' ai''"
       and m = ?m and e = "[]" and mx = ?nx and ex = "[]"
       and k' = "[50577, 51088, 54540, 47019, 54268]"]
  note t2 = score_monotone_in_keywords
    [where env = ascii_env and mi = ?mi and ei = "[]" and k = "[51032, 47308] @ u '' ai''"
       and m = ?n and e = "[]" and mx = ?nx and ex = "[]"
       and k' = "[50577, 51088, 54540, 47019, 54268]"]
  from t1 i1 i2 i3 i4 i5
  have a: "include_contribution ascii_env (hay ascii_env ?mi [])
             = min 4 (include_contribution ascii_env (hay ascii_env ?m []) + 1)"
          "fst (score_notice ascii_env ?m []) \<le> fst (score_notice ascii_env ?mi [])"
    by blast+
  from t2 x1 x2 x3 x4 x5
  have b: "exclude_contribution ascii_env (hay ascii_env ?nx [])
             = max (- 4) (exclude_contribution ascii_env (hay ascii_env ?n []) - 1)"
          "fst (score_notice ascii_env ?nx []) \<le> fst (score_notice ascii_env ?n [])"
    by blast+
  from a b v show ?thesis by blast
qed

text \<open>
  C8 (as stated) fails for exclude keywords: the context bonus is taken from the same text.
  The first title holds four exclude keywords (civil engineering, defence, nuclear plant,
  mine) and scores -4. Appending the exclude keyword U+C591 U+C790 U+D50C U+B7AB U+D3FC
  (quantum platform) adds exactly one exclude match and no include match; the exclude
  contribution stays at the floor, the appended keyword contains the context term
  U+D50C U+B7AB U+D3FC (platform), and the score rises to -3.
\<close>

theorem score_monotone_counterexample:
  "finditer ascii_env True exc_regex
      (hay ascii_env (Map.empty(K_TITLE \<mapsto>
         [53664, 47785, 32, 44397, 48169, 32, 50896, 51204, 32, 44305, 49328])) [])
     = [[53664, 47785], [44397, 48169], [50896, 51204], [44305, 49328]] \<and>
   finditer ascii_env True exc_regex
      (hay ascii_env (Map.empty(K_TITLE \<mapsto>
         [53664, 47785, 32, 44397, 48169, 32, 50896, 51204, 32, 44305, 49328, 32,
          50577, 51088, 54540, 47019, 54268])) [])
     = [[53664, 47785], [44397, 48169], [50896, 51204], [44305, 49328],
        [50577, 51088, 54540, 47019, 54268]] \<and>
   finditer ascii_env True inc_regex
      (hay ascii_env (Map.empty(K_TITLE \<mapsto>
         [53664, 47785, 32, 44397, 48169, 32, 50896, 51204, 32, 44305, 49328, 32,
          50577, 51088, 54540, 47019, 54268])) []) = [] \<and>
   fst (score_notice ascii_env (Map.empty(K_TITLE \<mapsto>
         [53664, 47785, 32, 44397, 48169, 32, 50896, 51204, 32, 44305, 49328])) []) = - 4 \<and>
   fst (score_notice ascii_env (Map.empty(K_TITLE \<mapsto>
         [53664, 47785, 32, 44397, 48169, 32, 50896, 51204, 32, 44305, 49328, 32,
          50577, 51088, 54540, 47019, 54268])) []) = - 3"
  by code_simp

section \<open>Properties of link validation\<close>

text \<open>The example pages, evaluated.\<close>

lemma urls_distinct:
  "url_a \<noteq> url_b" "url_b \<noteq> url_a" "url_a \<noteq> url_c" "url_c \<noteq> url_a" "url_b \<noteq> url_c" "url_c \<noteq> url_b"
  "url_a \<noteq> []" "url_b \<noteq> []" "url_c \<noteq> []"
  by code_simp+

lemma hop_ab: "refresh_hop ascii_env (refresh_page url_a url_b) = Inr (Some url_b)"
  by code_simp

lemma hop_bc: "refresh_hop ascii_env (refresh_page url_b url_c) = Inr (Some url_c)"
  by code_simp

lemma hop_ba: "refresh_hop ascii_env (refresh_page url_b url_a) = Inr (Some url_a)"
  by code_simp

lemma hop_pdf: "refresh_hop ascii_env (pdf_page url) = Inr None"
  by (simp add: refresh_hop_def pdf_page_def header_lower_def ascii_env_def) code_simp

lemma ok_refresh_page: "looks_like_ok_content ascii_env (refresh_page url target)"
  by (simp add: looks_like_ok_content_def refresh_page_def header_lower_def ascii_env_def OK_TYPES_def) code_simp

lemma ok_pdf_page: "looks_like_ok_content ascii_env (pdf_page url)"
  by (simp add: looks_like_ok_content_def pdf_page_def header_lower_def ascii_env_def OK_TYPES_def) code_simp

text \<open>A call appends its requests to the session: at most two per hop.\<close>

lemma validate_link_log:
  "\<exists>new. snd (validate_link d env w url referer log) = log @ new \<and> length new \<le> 2 * d"
proof (induction d arbitrary: url log)
  case 0
  show ?case by simp
next
  case (Suc d)
  show ?case
  proof (cases "url = []")
    case True
    then show ?thesis by (simp add: validate_link.simps(2))
  next
    case False
    let ?l1 = "log @ [(HEAD, url, referer)]"
    let ?l2 = "?l1 @ [(GET, url, referer)]"
    show ?thesis
    proof (cases "head_2xx (w log (HEAD, url, referer))")
      case True
      with False show ?thesis by (simp add: validate_link.simps(2) send_def Let_def)
    next
      case h: False
      show ?thesis
      proof (cases "w ?l1 (GET, url, referer)")
        case (Inl e)
        with False h show ?thesis by (simp add: validate_link.simps(2) send_def Let_def)
      next
        case (Inr g)
        show ?thesis
        proof (cases "200 \<le> status_code g \<and> status_code g < 400 \<and> looks_like_ok_content env g")
          case b: False
          with False h Inr show ?thesis by (auto simp add: validate_link.simps(2) send_def Let_def)
        next
          case b: True
          show ?thesis
          proof (cases "refresh_hop env g")
            case (Inl e)
            with False h Inr b show ?thesis by (simp add: validate_link.simps(2) send_def Let_def)
          next
            case hop: (Inr t)
            show ?thesis
            proof (cases t)
              case None
              with False h Inr b hop show ?thesis
                by (simp add: validate_link.simps(2) send_def Let_def)
            next
              case (Some nxt)
              from Suc.IH [of nxt ?l2] obtain new where
                n: "snd (validate_link d env w nxt referer ?l2) = ?l2 @ new" "length new \<le> 2 * d"
                by blast
              have "snd (validate_link (Suc d) env w url referer log)
                      = snd (validate_link d env w nxt referer ?l2)"
                using False h Inr b hop Some
                by (simp add: validate_link.simps(2) send_def Let_def split: prod.splits sum.splits)
              with n show ?thesis by simp
            qed
          qed
        qed
      qed
    qed
  qed
qed

text \<open>The seven ways through \<^verbatim>\<open>_validate_link\<close>.\<close>

lemma vl_empty:
  "validate_link (Suc d) env w [] referer log =
     (Inr (False, \<lparr>tried_head = False, tried_get = False, final_url = [],
                   status = None, ct = None, vm_note = Some EmptyUrl\<rparr>), log)"
  by (simp add: validate_link.simps(2))

lemma vl_head:
  "url \<noteq> [] \<Longrightarrow> head_2xx (w log (HEAD, url, referer)) \<Longrightarrow>
   validate_link (Suc d) env w url referer log =
     (Inr (True, meta_head url (w log (HEAD, url, referer))), log @ [(HEAD, url, referer)])"
  by (simp add: validate_link.simps(2) send_def Let_def meta_head_def split: sum.splits)

lemma vl_get_err:
  "url \<noteq> [] \<Longrightarrow> \<not> head_2xx (w log (HEAD, url, referer)) \<Longrightarrow>
   w (log @ [(HEAD, url, referer)]) (GET, url, referer) = Inl e \<Longrightarrow>
   validate_link (Suc d) env w url referer log =
     (Inr (False, (meta_tried url (w log (HEAD, url, referer)))\<lparr>vm_note := Some (GetErr e)\<rparr>),
      log @ [(HEAD, url, referer), (GET, url, referer)])"
  by (simp add: validate_link.simps(2) send_def Let_def meta_head_def meta_tried_def split: sum.splits)

lemma vl_bad:
  "url \<noteq> [] \<Longrightarrow> \<not> head_2xx (w log (HEAD, url, referer)) \<Longrightarrow>
   w (log @ [(HEAD, url, referer)]) (GET, url, referer) = Inr g \<Longrightarrow>
   \<not> (200 \<le> status_code g \<and> status_code g < 400 \<and> looks_like_ok_content env g) \<Longrightarrow>
   validate_link (Suc d) env w url referer log =
     (Inr (False, (meta_get url (w log (HEAD, url, referer)) g)
                    \<lparr>vm_note := Some (GetBadStatus (status_code g))\<rparr>),
      log @ [(HEAD, url, referer), (GET, url, referer)])"
  by (auto simp add: validate_link.simps(2) send_def Let_def meta_head_def meta_tried_def meta_get_def split: sum.splits prod.splits)

lemma vl_hop_err:
  "url \<noteq> [] \<Longrightarrow> \<not> head_2xx (w log (HEAD, url, referer)) \<Longrightarrow>
   w (log @ [(HEAD, url, referer)]) (GET, url, referer) = Inr g \<Longrightarrow>
   200 \<le> status_code g \<and> status_code g < 400 \<and> looks_like_ok_content env g \<Longrightarrow>
   refresh_hop env g = Inl e \<Longrightarrow>
   validate_link (Suc d) env w url referer log =
     (Inr (False, (meta_get url (w log (HEAD, url, referer)) g)\<lparr>vm_note := Some (GetErr e)\<rparr>),
      log @ [(HEAD, url, referer), (GET, url, referer)])"
  by (simp add: validate_link.simps(2) send_def Let_def meta_head_def meta_tried_def meta_get_def split: sum.splits prod.splits)

lemma vl_no_hop:
  "url \<noteq> [] \<Longrightarrow> \<not> head_2xx (w log (HEAD, url, referer)) \<Longrightarrow>
   w (log @ [(HEAD, url, referer)]) (GET, url, referer) = Inr g \<Longrightarrow>
   200 \<le> status_code g \<and> status_code g < 400 \<and> looks_like_ok_content env g \<Longrightarrow>
   refresh_hop env g = Inr None \<Longrightarrow>
   validate_link (Suc d) env w url referer log =
     (Inr (True, meta_get url (w log (HEAD, url, referer)) g),
      log @ [(HEAD, url, referer), (GET, url, referer)])"
  by (simp add: validate_link.simps(2) send_def Let_def meta_head_def meta_tried_def meta_get_def split: sum.splits prod.splits)

lemma vl_hop:
  "url \<noteq> [] \<Longrightarrow> \<not> head_2xx (w log (HEAD, url, referer)) \<Longrightarrow>
   w (log @ [(HEAD, url, referer)]) (GET, url, referer) = Inr g \<Longrightarrow>
   200 \<le> status_code g \<and> status_code g < 400 \<and> looks_like_ok_content env g \<Longrightarrow>
   refresh_hop env g = Inr (Some nxt) \<Longrightarrow>
   validate_link (Suc d) env w url referer log =
     (case validate_link d env w nxt referer (log @ [(HEAD, url, referer), (GET, url, referer)]) of
        (Inl e, log') \<Rightarrow>
          (Inr (False, (meta_get url (w log (HEAD, url, referer)) g)\<lparr>vm_note := Some (GetErr e)\<rparr>),
           log')
      | (Inr (ok2, m2), log') \<Rightarrow>
          (Inr (ok2, (meta_get url (w log (HEAD, url, referer)) g)
                       \<lparr>vm_note := Some (MetaRefresh nxt), final_url := final_url m2,
                          status := status m2, ct := ct m2\<rparr>), log'))"
  by (simp add: validate_link.simps(2) send_def Let_def meta_head_def meta_tried_def meta_get_def split: sum.splits prod.splits)

lemma looks_like_ok_content_iff:
  "looks_like_ok_content env g =
     ((\<exists>x \<in> set OK_TYPES. str_in x (header_lower env (content_type g))) \<or>
      (\<exists>n. content_length_int g = Some n \<and> 200 < n) \<or> 200 < length (content g))"
  by (auto simp: looks_like_ok_content_def Let_def split: option.splits)

lemma validate_link_verdict_aux:
  assumes "url \<noteq> []"
  shows "is_valid (validate_link (Suc d) env w url referer log) =
           (head_2xx (w log (HEAD, url, referer)) \<or>
            (case w (log @ [(HEAD, url, referer)]) (GET, url, referer) of
               Inl e \<Rightarrow> False
             | Inr g \<Rightarrow>
                 200 \<le> status_code g \<and> status_code g < 400 \<and> looks_like_ok_content env g \<and>
                 (case refresh_hop env g of
                    Inl e \<Rightarrow> False
                  | Inr None \<Rightarrow> True
                  | Inr (Some nxt) \<Rightarrow>
                      is_valid (validate_link d env w nxt referer
                                  (log @ [(HEAD, url, referer), (GET, url, referer)]))))) \<and>
         (if head_2xx (w log (HEAD, url, referer))
          then snd (validate_link (Suc d) env w url referer log) = log @ [(HEAD, url, referer)]
          else take (length log + 2) (snd (validate_link (Suc d) env w url referer log))
                 = log @ [(HEAD, url, referer), (GET, url, referer)])"
proof -
  let ?hr = "w log (HEAD, url, referer)"
  let ?l2 = "log @ [(HEAD, url, referer), (GET, url, referer)]"
  let ?R = "validate_link (Suc d) env w url referer log"
  show "is_valid ?R =
           (head_2xx ?hr \<or>
            (case w (log @ [(HEAD, url, referer)]) (GET, url, referer) of
               Inl e \<Rightarrow> False
             | Inr g \<Rightarrow>
                 200 \<le> status_code g \<and> status_code g < 400 \<and> looks_like_ok_content env g \<and>
                 (case refresh_hop env g of
                    Inl e \<Rightarrow> False
                  | Inr None \<Rightarrow> True
                  | Inr (Some nxt) \<Rightarrow> is_valid (validate_link d env w nxt referer ?l2)))) \<and>
         (if head_2xx ?hr then snd ?R = log @ [(HEAD, url, referer)]
          else take (length log + 2) (snd ?R) = ?l2)"
  proof (cases "head_2xx ?hr")
    case True
    with assms show ?thesis by (simp add: vl_head is_valid_def)
  next
    case h: False
    show ?thesis
    proof (cases "w (log @ [(HEAD, url, referer)]) (GET, url, referer)")
      case (Inl e)
      with assms h show ?thesis by (simp add: vl_get_err is_valid_def)
    next
      case (Inr g)
      show ?thesis
      proof (cases "200 \<le> status_code g \<and> status_code g < 400 \<and> looks_like_ok_content env g")
        case b: False
        from vl_bad [OF assms h Inr b] h Inr b show ?thesis by (auto simp: is_valid_def)
      next
        case b: True
        show ?thesis
        proof (cases "refresh_hop env g")
          case (Inl e)
          from vl_hop_err [OF assms h Inr b Inl] h Inr b Inl show ?thesis by (simp add: is_valid_def)
        next
          case hop: (Inr t)
          show ?thesis
          proof (cases t)
            case None
            from vl_no_hop [OF assms h Inr b hop [unfolded None]] h Inr b hop None
            show ?thesis by (simp add: is_valid_def)
          next
            case (Some nxt)
            obtain new where n: "snd (validate_link d env w nxt referer ?l2) = ?l2 @ new"
              using validate_link_log [of d env w nxt referer ?l2] by blast
            from vl_hop [OF assms h Inr b hop [unfolded Some]] h Inr b hop Some n
            show ?thesis by (auto simp: is_valid_def split: prod.splits sum.splits)
          qed
        qed
      qed
    qed
  qed
qed

lemma head_chain: "\<not> head_2xx (chain_world log (HEAD, url, referer))"
  by (simp add: head_2xx_def chain_world_def head_405_def)

lemma page_status [simp]:
  "status_code (pdf_page url) = 200" "status_code (refresh_page url target) = 200"
  "status_code (head_405 url) = 405" "status_code (hints_page url) = 103"
  by (simp_all add: pdf_page_def refresh_page_def head_405_def hints_page_def)

lemma head_405_not_2xx [simp]: "\<not> head_2xx (Inr (head_405 url))"
  by (simp add: head_2xx_def)

lemma no_answer_not_2xx [simp]: "\<not> head_2xx no_answer"
  by (simp add: head_2xx_def no_answer_def)

lemma ok_hints_page: "looks_like_ok_content ascii_env (hints_page url)"
  by (simp add: looks_like_ok_content_def hints_page_def header_lower_def ascii_env_def OK_TYPES_def)
    code_simp

lemma dead_target_invalid:
  "\<not> is_valid (validate_link (Suc (Suc d)) ascii_env dead_target_world url_a url_r log)"
proof -
  have b: "\<not> is_valid (validate_link (Suc d) ascii_env dead_target_world url_b url_r l)" for l
    using validate_link_verdict_aux [OF urls_distinct(8), of d ascii_env dead_target_world url_r l]
    by (simp add: dead_target_world_def urls_distinct no_answer_def head_2xx_def)
  show ?thesis
    using validate_link_verdict_aux [OF urls_distinct(7), of "Suc d" ascii_env dead_target_world url_r log] b
    by (simp add: dead_target_world_def urls_distinct ok_refresh_page hop_ab)
qed

lemma early_hints_invalid:
  "\<not> is_valid (validate_link (Suc d) ascii_env early_hints_world url_a url_r log)"
  using validate_link_verdict_aux [OF urls_distinct(7), of d ascii_env early_hints_world url_r log]
  by (simp add: early_hints_world_def)

text \<open>
  C4 (as amended). For a non-empty URL, \<^verbatim>\<open>_validate_link\<close> sends a HEAD request and accepts at
  once when it is answered with a status from 200 to 299. On any other outcome (another
  status, or an exception) it sends a GET request, and then it accepts exactly when the
  GET is answered, its status is from 200 to 399, its content looks substantive (the
  \<^verbatim>\<open>Content-Type\<close> header, lower-cased, contains one of the five recognised types, or the
  \<^verbatim>\<open>Content-Length\<close> header is above 200, or the body is longer than 200 bytes) and, when
  the response is an HTML page with a meta refresh to another URL, the validation of that
  URL accepts; when computing the target raises, it rejects.
\<close>

theorem validate_link_verdict:
  assumes "url \<noteq> []"
  shows "is_valid (validate_link (Suc d) env w url referer log) =
           (head_2xx (w log (HEAD, url, referer)) \<or>
            (case w (log @ [(HEAD, url, referer)]) (GET, url, referer) of
               Inl e \<Rightarrow> False
             | Inr g \<Rightarrow>
                 200 \<le> status_code g \<and> status_code g < 400 \<and> ((\<exists>x \<in> set OK_TYPES. str_in x (header_lower env (content_type g))) \<or>
                  (\<exists>n. content_length_int g = Some n \<and> 200 < n) \<or>
                  200 < length (content g)) \<and>
                 (case refresh_hop env g of
                    Inl e \<Rightarrow> False
                  | Inr None \<Rightarrow> True
                  | Inr (Some nxt) \<Rightarrow>
                      is_valid (validate_link d env w nxt referer
                                  (log @ [(HEAD, url, referer), (GET, url, referer)]))))) \<and>
         (if head_2xx (w log (HEAD, url, referer))
          then snd (validate_link (Suc d) env w url referer log) = log @ [(HEAD, url, referer)]
          else take (length log + 2) (snd (validate_link (Suc d) env w url referer log))
                 = log @ [(HEAD, url, referer), (GET, url, referer)])"
  using validate_link_verdict_aux [OF assms, of d env w referer log]
  unfolding looks_like_ok_content_iff .

text \<open>An instance: the PDF of the chain, whose HEAD is answered with 405.\<close>

theorem validate_link_verdict_witness:
  "url_c \<noteq> [] \<and> is_valid (validate_link (Suc 0) ascii_env chain_world url_c url_r []) \<and>
   take 2 (snd (validate_link (Suc 0) ascii_env chain_world url_c url_r []))
     = [(HEAD, url_c, url_r), (GET, url_c, url_r)]"
  using validate_link_verdict [OF urls_distinct(9), of 0 ascii_env chain_world url_r "[]"]
  unfolding looks_like_ok_content_iff [symmetric]
  by (simp add: chain_world_def urls_distinct ok_pdf_page hop_pdf numeral_2_eq_2)

text \<open>
  C4 (as stated) fails in two ways. In the first network the GET of page a is answered
  with status 200 and an HTML page, which redirects by meta refresh to page b, and page b
  does not answer: the URL is rejected. In the second the GET is answered with status 103
  and an HTML page: the status is below 400, and the URL is rejected.
\<close>

theorem validate_link_verdict_counterexample:
  "\<not> head_2xx (dead_target_world [] (HEAD, url_a, url_r)) \<and>
   dead_target_world [(HEAD, url_a, url_r)] (GET, url_a, url_r) = Inr (refresh_page url_a url_b) \<and>
   status_code (refresh_page url_a url_b) < 400 \<and>
   looks_like_ok_content ascii_env (refresh_page url_a url_b) \<and>
   \<not> is_valid (validate_link 1000 ascii_env dead_target_world url_a url_r []) \<and>
   \<not> head_2xx (early_hints_world [] (HEAD, url_a, url_r)) \<and>
   early_hints_world [(HEAD, url_a, url_r)] (GET, url_a, url_r) = Inr (hints_page url_a) \<and>
   status_code (hints_page url_a) < 400 \<and>
   looks_like_ok_content ascii_env (hints_page url_a) \<and>
   \<not> is_valid (validate_link 1000 ascii_env early_hints_world url_a url_r [])"
proof -
  have n: "(1000::nat) = Suc (Suc 998)" by simp
  show ?thesis
    unfolding n
    using dead_target_invalid [of 998 "[]"] early_hints_invalid [of "Suc 998" "[]"]
    by (simp add: dead_target_world_def early_hints_world_def ok_refresh_page ok_hints_page)
qed

lemma answered_at:
  "w log rq = Inr r \<Longrightarrow> answered w (log @ rq # rest) (length log)"
  by (simp add: answered_def)

lemma some_answer_head:
  "w log rq = Inr r \<Longrightarrow> some_answer w log (log @ rq # rest)"
  unfolding some_answer_def using answered_at [of w log rq r rest] by force

lemma some_answer_get:
  assumes "w (log @ [rq1]) rq2 = Inr r"
  shows "some_answer w log (log @ rq1 # rq2 # rest)"
proof -
  have "answered w ((log @ [rq1]) @ rq2 # rest) (length (log @ [rq1]))"
    using assms answered_at [of w "log @ [rq1]" rq2 r rest] by simp
  then show ?thesis unfolding some_answer_def by force
qed

lemma some_answer_mono:
  "some_answer w (log @ xs) full \<Longrightarrow> some_answer w log full"
  unfolding some_answer_def by force

lemma status_meta_head:
  "status (meta_head url hr) = None \<or> (\<exists>r. hr = Inr r)"
  "ct (meta_head url hr) = None \<or> (\<exists>r. hr = Inr r)"
  by (cases hr; simp add: meta_head_def meta_update_def)+

lemma meta_get_fields:
  "status (meta_get url hr g) = Some (status_code g)"
  by (simp add: meta_get_def meta_update_def)

lemma validate_link_meta:
  "(d = 0 \<and> validate_link d env w url referer log = (Inl RecursionError, log)) \<or>
   (\<exists>ok meta.
      fst (validate_link d env w url referer log) = Inr (ok, meta) \<and>
      (ok \<or> (\<exists>n. vm_note meta = Some n)) \<and>
      (status meta = None \<or> some_answer w log (snd (validate_link d env w url referer log))) \<and>
      (ct meta = None \<or> some_answer w log (snd (validate_link d env w url referer log))))"
proof (induction d arbitrary: url log)
  case 0
  show ?case by simp
next
  case (Suc d)
  let ?H = "(HEAD, url, referer)" and ?G = "(GET, url, referer)"
  let ?hr = "w log ?H"
  let ?l2 = "log @ [?H, ?G]"
  show ?case
  proof (cases "url = []")
    case True
    then show ?thesis by (auto simp add: vl_empty)
  next
    case u: False
    show ?thesis
    proof (cases "head_2xx ?hr")
      case True
      then obtain r where r: "?hr = Inr r" by (cases ?hr) (simp_all add: head_2xx_def)
      from some_answer_head [of w log ?H r "[]"] r u True show ?thesis
        by (auto simp add: vl_head [where w = w and log = log and url = url and referer = referer and env = env and d = d])
    next
      case h: False
      have sh: "some_answer w log ?l2" if "?hr = Inr r" for r
        using some_answer_head [of w log ?H r "[?G]"] that by simp
      show ?thesis
      proof (cases "w (log @ [?H]) ?G")
        case (Inl e)
        from status_meta_head [of url ?hr] sh u h Inl show ?thesis
          by (auto simp add: vl_get_err [where w = w and log = log and url = url and referer = referer and env = env and d = d] meta_tried_def)
      next
        case (Inr g)
        have sg: "some_answer w log (?l2 @ rest)" for rest
          using some_answer_get [of w log ?H ?G g rest] Inr by simp
        show ?thesis
        proof (cases "200 \<le> status_code g \<and> status_code g < 400 \<and> looks_like_ok_content env g")
          case b: False
          from sg [of "[]"] u h Inr b show ?thesis
            by (auto simp add: vl_bad [where w = w and log = log and url = url and referer = referer and env = env and d = d] meta_get_fields)
        next
          case b: True
          show ?thesis
          proof (cases "refresh_hop env g")
            case (Inl e)
            from sg [of "[]"] u h Inr b Inl show ?thesis
              by (auto simp add: vl_hop_err [where w = w and log = log and url = url and referer = referer and env = env and d = d])
          next
            case hop: (Inr t)
            show ?thesis
            proof (cases t)
              case None
              from sg [of "[]"] u h Inr b hop None show ?thesis
                by (auto simp add: vl_no_hop [where w = w and log = log and url = url and referer = referer and env = env and d = d])
            next
              case (Some nxt)
              let ?C = "validate_link d env w nxt referer ?l2"
              obtain new where n: "snd ?C = ?l2 @ new"
                using validate_link_log [of d env w nxt referer ?l2] by blast
              have eq: "validate_link (Suc d) env w url referer log =
                (case ?C of
                   (Inl e, log') \<Rightarrow>
                     (Inr (False, (meta_get url ?hr g)\<lparr>vm_note := Some (GetErr e)\<rparr>), log')
                 | (Inr (ok2, m2), log') \<Rightarrow>
                     (Inr (ok2, (meta_get url ?hr g)
                                  \<lparr>vm_note := Some (MetaRefresh nxt), final_url := final_url m2,
                                     status := status m2, ct := ct m2\<rparr>), log'))"
                using u h Inr b hop Some by (simp add: vl_hop [where w = w and log = log and url = url and referer = referer and env = env and d = d])
              show ?thesis
              proof (cases "fst ?C")
                case ce: (Inl e)
                then have "?C = (Inl e, ?l2 @ new)" using n by (cases ?C) simp
                with sg [of new] show ?thesis by (auto simp add: eq)
              next
                case cr: (Inr p)
                obtain ok2 m2 where p: "p = (ok2, m2)" by (cases p)
                have c: "?C = (Inr (ok2, m2), ?l2 @ new)" using cr p n by (cases ?C) simp
                from Suc.IH [of nxt ?l2] cr p
                have m2: "status m2 = None \<or> some_answer w ?l2 (?l2 @ new)"
                         "ct m2 = None \<or> some_answer w ?l2 (?l2 @ new)"
                  using n by auto
                have "some_answer w ?l2 (?l2 @ new) \<Longrightarrow> some_answer w log (?l2 @ new)"
                  using some_answer_mono [of w log "[?H, ?G]" "?l2 @ new"] by simp
                with m2 c show ?thesis by (auto simp add: eq)
              qed
            qed
          qed
        qed
      qed
    qed
  qed
qed




lemma count_gets_append [simp]: "count_gets (xs @ ys) = count_gets xs + count_gets ys"
  by (simp add: count_gets_def)

lemma count_gets_simps [simp]:
  "count_gets [] = 0"
  "count_gets ((HEAD, url, referer) # xs) = count_gets xs"
  "count_gets ((GET, url, referer) # xs) = Suc (count_gets xs)"
  by (simp_all add: count_gets_def)

lemma validate_link_hops_aux:
  "\<exists>new. snd (validate_link d env w url referer log) = log @ new \<and>
         length new \<le> 2 * d \<and> count_gets new \<le> d"
proof (induction d arbitrary: url log)
  case 0
  show ?case by simp
next
  case (Suc d)
  let ?H = "(HEAD, url, referer)" and ?G = "(GET, url, referer)"
  let ?l2 = "log @ [?H, ?G]"
  show ?case
  proof (cases "url = []")
    case True
    then show ?thesis by (simp add: vl_empty)
  next
    case u: False
    show ?thesis
    proof (cases "head_2xx (w log ?H)")
      case True
      with u show ?thesis by (simp add: vl_head)
    next
      case h: False
      show ?thesis
      proof (cases "w (log @ [?H]) ?G")
        case (Inl e)
        with u h show ?thesis by (simp add: vl_get_err)
      next
        case (Inr g)
        show ?thesis
        proof (cases "200 \<le> status_code g \<and> status_code g < 400 \<and> looks_like_ok_content env g")
          case b: False
          from vl_bad [where w = w and log = log and url = url and referer = referer and env = env and d = d and g = g] u h Inr b
          show ?thesis by auto
        next
          case b: True
          show ?thesis
          proof (cases "refresh_hop env g")
            case (Inl e)
            from vl_hop_err [where w = w and log = log and url = url and referer = referer and env = env and d = d and g = g and e = e] u h Inr b Inl
            show ?thesis by auto
          next
            case hop: (Inr t)
            show ?thesis
            proof (cases t)
              case None
              from vl_no_hop [where w = w and log = log and url = url and referer = referer and env = env and d = d and g = g] u h Inr b hop None
              show ?thesis by auto
            next
              case (Some nxt)
              from Suc.IH [of nxt ?l2] obtain new where
                n: "snd (validate_link d env w nxt referer ?l2) = ?l2 @ new"
                   "length new \<le> 2 * d" "count_gets new \<le> d"
                by blast
              have "snd (validate_link (Suc d) env w url referer log)
                      = snd (validate_link d env w nxt referer ?l2)"
                using vl_hop [where w = w and log = log and url = url and referer = referer and env = env and d = d and g = g and nxt = nxt] u h Inr b hop Some
                by (auto split: prod.splits sum.splits)
              with n have "snd (validate_link (Suc d) env w url referer log)
                             = log @ ([?H, ?G] @ new) \<and>
                           length ([?H, ?G] @ new) \<le> 2 * Suc d \<and> count_gets ([?H, ?G] @ new) \<le> Suc d"
                by simp
              then show ?thesis by blast
            qed
          qed
        qed
      qed
    qed
  qed
qed

lemma cycle_gets:
  "url = url_a \<or> url = url_b \<Longrightarrow>
   count_gets (snd (validate_link d ascii_env cycle_world url url_r log)) = count_gets log + d \<and>
   \<not> is_valid (validate_link d ascii_env cycle_world url url_r log)"
proof (induction d arbitrary: url log)
  case 0
  show ?case by (simp add: is_valid_def)
next
  case (Suc d)
  let ?H = "(HEAD, url, url_r)" and ?G = "(GET, url, url_r)"
  let ?l2 = "log @ [?H, ?G]"
  define nxt where "nxt = (if url = url_a then url_b else url_a)"
  have nx: "nxt = url_a \<or> nxt = url_b" by (simp add: nxt_def)
  have u: "url \<noteq> []" using Suc.prems urls_distinct by auto
  have h: "\<not> head_2xx (cycle_world log ?H)" by (simp add: cycle_world_def)
  have g: "cycle_world (log @ [?H]) ?G = Inr (refresh_page url nxt)"
    using Suc.prems by (auto simp: cycle_world_def nxt_def urls_distinct)
  have b: "200 \<le> status_code (refresh_page url nxt) \<and> status_code (refresh_page url nxt) < 400 \<and>
           looks_like_ok_content ascii_env (refresh_page url nxt)"
    by (simp add: ok_refresh_page)
  have hop: "refresh_hop ascii_env (refresh_page url nxt) = Inr (Some nxt)"
    using Suc.prems by (auto simp: nxt_def hop_ab hop_ba urls_distinct)
  let ?C = "validate_link d ascii_env cycle_world nxt url_r ?l2"
  from Suc.IH [OF nx, of ?l2]
  have ih: "count_gets (snd ?C) = count_gets log + Suc d" "\<not> is_valid ?C" by simp_all
  from vl_hop [where w = cycle_world and log = log and url = url and referer = url_r
                 and env = ascii_env and d = d and g = "refresh_page url nxt" and nxt = nxt]
       u h g b hop
  have eq: "validate_link (Suc d) ascii_env cycle_world url url_r log =
     (case ?C of
        (Inl e, log') \<Rightarrow>
          (Inr (False, (meta_get url (cycle_world log ?H) (refresh_page url nxt))\<lparr>vm_note := Some (GetErr e)\<rparr>),
           log')
      | (Inr (ok2, m2), log') \<Rightarrow>
          (Inr (ok2, (meta_get url (cycle_world log ?H) (refresh_page url nxt))
                       \<lparr>vm_note := Some (MetaRefresh nxt), final_url := final_url m2,
                          status := status m2, ct := ct m2\<rparr>), log'))"
    by simp
  from ih show ?case
    unfolding eq by (auto simp: is_valid_def split: prod.splits sum.splits)
qed

lemma chain_gets:
  "snd (validate_link (Suc (Suc (Suc d))) ascii_env chain_world url_a url_r []) =
     [(HEAD, url_a, url_r), (GET, url_a, url_r), (HEAD, url_b, url_r), (GET, url_b, url_r),
      (HEAD, url_c, url_r), (GET, url_c, url_r)] \<and>
   is_valid (validate_link (Suc (Suc (Suc d))) ascii_env chain_world url_a url_r [])"
proof -
  let ?la = "[(HEAD, url_a, url_r), (GET, url_a, url_r)]"
  let ?lb = "?la @ [(HEAD, url_b, url_r), (GET, url_b, url_r)]"
  have c: "validate_link (Suc d) ascii_env chain_world url_c url_r ?lb =
     (Inr (True, meta_get url_c (Inr (head_405 url_c)) (pdf_page url_c)),
      ?lb @ [(HEAD, url_c, url_r), (GET, url_c, url_r)])"
    using vl_no_hop [of url_c chain_world ?lb url_r "pdf_page url_c" ascii_env d]
    by (simp add: chain_world_def urls_distinct ok_pdf_page hop_pdf)
  have b: "validate_link (Suc (Suc d)) ascii_env chain_world url_b url_r ?la =
     (Inr (True, (meta_get url_b (Inr (head_405 url_b)) (refresh_page url_b url_c))
                   \<lparr>vm_note := Some (MetaRefresh url_c),
                      final_url := final_url (meta_get url_c (Inr (head_405 url_c)) (pdf_page url_c)),
                      status := status (meta_get url_c (Inr (head_405 url_c)) (pdf_page url_c)),
                      ct := ct (meta_get url_c (Inr (head_405 url_c)) (pdf_page url_c))\<rparr>),
      ?lb @ [(HEAD, url_c, url_r), (GET, url_c, url_r)])"
    using vl_hop [of url_b chain_world ?la url_r "refresh_page url_b url_c" ascii_env url_c "Suc d"] c
    by (simp add: chain_world_def urls_distinct ok_refresh_page hop_bc)
  show ?thesis
    using vl_hop [of url_a chain_world "[]" url_r "refresh_page url_a url_b" ascii_env url_b "Suc (Suc d)"] b
    by (simp add: chain_world_def urls_distinct ok_refresh_page hop_ab is_valid_def)
qed

text \<open>
  C6 (as amended). The recursion of \<^verbatim>\<open>_validate_link\<close> follows a chain of meta refreshes of
  any length: nothing bounds it to one extra hop. What ends it on every input is the
  recursion limit of the interpreter: a call that may nest \<open>Suc d\<close> calls deep returns a
  verdict after at most \<open>Suc d\<close> GET requests and twice as many requests in all. On pages
  that refer to one another in a cycle it uses up the whole depth.
\<close>

theorem validate_link_hops:
  "\<exists>ok meta new.
     validate_link (Suc d) env w url referer log = (Inr (ok, meta), log @ new) \<and>
     length new \<le> 2 * Suc d \<and> count_gets new \<le> Suc d"
proof -
  from validate_link_meta [of "Suc d" env w url referer log]
  obtain ok meta where m: "fst (validate_link (Suc d) env w url referer log) = Inr (ok, meta)"
    by auto
  from validate_link_hops_aux [of "Suc d" env w url referer log]
  obtain new where n: "snd (validate_link (Suc d) env w url referer log) = log @ new"
    "length new \<le> 2 * Suc d" "count_gets new \<le> Suc d"
    by blast
  from m n(1) have "validate_link (Suc d) env w url referer log = (Inr (ok, meta), log @ new)"
    by (simp add: prod_eq_iff)
  with n(2,3) show ?thesis by blast
qed

text \<open>
  C6 (as stated) fails. On the chain (page a redirects to page b, page b to a PDF) the call
  follows two hops, with three GET requests, and accepts. On the cycle (page a redirects
  to page b and page b to page a) a call that may nest 1000 deep makes 1000 GET requests
  before it rejects.
\<close>

theorem validate_link_hops_counterexample:
  "count_gets (snd (validate_link 1000 ascii_env chain_world url_a url_r [])) = 3 \<and>
   is_valid (validate_link 1000 ascii_env chain_world url_a url_r []) \<and>
   count_gets (snd (validate_link 1000 ascii_env cycle_world url_a url_r [])) = 1000 \<and>
   \<not> is_valid (validate_link 1000 ascii_env cycle_world url_a url_r [])"
proof -
  have n: "(1000::nat) = Suc (Suc (Suc 997))" by simp
  have "count_gets (snd (validate_link (Suc (Suc (Suc 997))) ascii_env chain_world url_a url_r [])) = 3 \<and>
        is_valid (validate_link (Suc (Suc (Suc 997))) ascii_env chain_world url_a url_r [])"
    using chain_gets [of 997] by simp
  moreover have "count_gets (snd (validate_link 1000 ascii_env cycle_world url_a url_r [])) = 1000 \<and>
   \<not> is_valid (validate_link 1000 ascii_env cycle_world url_a url_r [])"
    using cycle_gets [of url_a 1000 "[]"] by simp
  ultimately show ?thesis unfolding n [symmetric] by simp
qed

section \<open>Properties of the sort of the collected notices\<close>

lemma utc_to_seconds_min: "utc_to_seconds datetime_min = 86400"
  by (simp add: utc_to_seconds_def datetime_min_def ymd_to_ord_def days_before_year_def
      days_before_month_def)

lemma timestamp_min_raises:
  assumes off: "\<forall>x < 259200. utc_offset env x = c" and lo: "- 86400 < c" and hi: "c < 86400"
  shows "timestamp env datetime_min = Inl (OtherError (u ''ValueError''))"
proof (cases "c < 0")
  case True
  with off have "local_seconds env 86400 = Inl (OtherError (u ''ValueError''))"
    by (simp add: local_seconds_def FIRST_SECOND_def Let_def)
  then show ?thesis
    by (simp add: timestamp_def local_to_seconds_def utc_to_seconds_min)
next
  case False
  from off have o1: "utc_offset env 86400 = c" by simp
  from off lo False have o2: "utc_offset env (86400 - c) = c" by simp
  from off lo False have o3: "utc_offset env (- c) = c" by simp
  have l1: "local_seconds env 86400 = Inr (86400 + c)"
    using False hi by (simp add: local_seconds_def FIRST_SECOND_def LAST_SECOND_def Let_def o1)
  have l2: "local_seconds env (86400 - c) = Inr 86400"
    by (simp add: local_seconds_def FIRST_SECOND_def LAST_SECOND_def Let_def o2)
  have l3: "local_seconds env (- c) = Inl (OtherError (u ''ValueError''))"
    by (simp add: local_seconds_def FIRST_SECOND_def Let_def o3)
  show ?thesis
    by (simp add: timestamp_def local_to_seconds_def utc_to_seconds_min l1 l2 l3 Let_def)
qed

lemma keys_of_raises:
  "x \<in> set xs \<Longrightarrow> key_of env x = Inl e \<Longrightarrow> \<exists>e'. keys_of env xs = Inl e'"
proof (induction xs)
  case Nil
  then show ?case by simp
next
  case (Cons y ys)
  show ?case
  proof (cases "key_of env y")
    case (Inl a)
    then show ?thesis by simp
  next
    case (Inr k)
    with Cons.prems have "x \<in> set ys" by auto
    from Cons.IH [OF this Cons.prems(2)] Inr show ?thesis by auto
  qed
qed

lemma parse_absent:
  "n_date x = None \<or> n_date x = Some [] \<or>
   (\<exists>s. n_date x = Some s \<and> strptime env (take 16 (strip s)) Fmt_ymd_hm = None \<and>
        strptime env (take 16 (strip s)) Fmt_ymd = None)
   \<Longrightarrow> parse_date_for_sort env (n_date x) = datetime_min"
  by (auto simp: parse_date_for_sort_def Let_def)

text \<open>
  C2 (what the code does). The sort key calls \<^verbatim>\<open>timestamp()\<close> on the result of
  \<^verbatim>\<open>_parse_date_for_sort\<close>, which is \<^verbatim>\<open>datetime.min\<close> for a date that is absent, empty or not
  parseable. In a time zone whose offset around the year 1 is constant and less than a day,
  \<^verbatim>\<open>datetime.min.timestamp()\<close> raises \<^verbatim>\<open>ValueError\<close>: the search for the UTC instant looks at
  local times before the year 1. So the sort of a list that holds one such notice raises,
  and \<^verbatim>\<open>collect\<close> with it; such notices are not sorted last.
\<close>

theorem collect_sort_raises:
  "(\<forall>t < 259200. utc_offset env t = c) \<and> - 86400 < c \<and> c < 86400 \<and> x \<in> set xs \<and>
   (n_date x = None \<or> n_date x = Some [] \<or>
    (\<exists>s. n_date x = Some s \<and> strptime env (take 16 (strip s)) Fmt_ymd_hm = None \<and>
         strptime env (take 16 (strip s)) Fmt_ymd = None))
   \<longrightarrow> timestamp env (parse_date_for_sort env (n_date x)) = Inl (OtherError (u ''ValueError'')) \<and>
       (\<exists>e. collect_sort env xs = Inl e)"
proof
  assume a: "(\<forall>t < 259200. utc_offset env t = c) \<and> - 86400 < c \<and> c < 86400 \<and> x \<in> set xs \<and>
   (n_date x = None \<or> n_date x = Some [] \<or>
    (\<exists>s. n_date x = Some s \<and> strptime env (take 16 (strip s)) Fmt_ymd_hm = None \<and>
         strptime env (take 16 (strip s)) Fmt_ymd = None))"
  then have p: "parse_date_for_sort env (n_date x) = datetime_min"
    using parse_absent [of x env] by blast
  from a have t: "timestamp env datetime_min = Inl (OtherError (u ''ValueError''))"
    using timestamp_min_raises [of env c] by blast
  then have k: "key_of env x = Inl (OtherError (u ''ValueError''))"
    by (simp add: key_of_def p)
  from a have "x \<in> set xs" by blast
  from keys_of_raises [OF this k] obtain e where "keys_of env xs = Inl e" by blast
  then have "collect_sort env xs = Inl e" by (simp add: collect_sort_def)
  with t p show "timestamp env (parse_date_for_sort env (n_date x)) = Inl (OtherError (u ''ValueError'')) \<and>
       (\<exists>e. collect_sort env xs = Inl e)" by auto
qed

text \<open>An instance: the example of the specification, in UTC.\<close>

theorem collect_sort_raises_witness:
  "\<lparr>n_score = Some 3, n_date = None, n_title = Some (u ''c'')\<rparr> \<in> set example_notices \<and>
   (\<exists>e. collect_sort ascii_env example_notices = Inl e)"
proof -
  have o: "\<forall>t < 259200. utc_offset ascii_env t = 0" by (simp add: ascii_env_def)
  have m: "\<lparr>n_score = Some 3, n_date = None, n_title = Some (u ''c'')\<rparr> \<in> set example_notices"
    by (simp add: example_notices_def)
  from collect_sort_raises
         [of ascii_env 0 "\<lparr>n_score = Some 3, n_date = None, n_title = Some (u ''c'')\<rparr>" example_notices]
       o m
  show ?thesis by simp
qed

text \<open>
  C2 (as stated) fails on the example of the specification (scores 5, 5, 3, dates
  2025-01-01, 2024-01-01, absent): the first two notices alone are sorted, by the keys
  shown; with the third the sort raises.
\<close>

theorem collect_sort_counterexample:
  "keys_of ascii_env (take 2 example_notices)
     = Inr [(- 5, - 1735689600, u ''a''), (- 5, - 1704067200, u ''b'')] \<and>
   collect_sort ascii_env (take 2 example_notices) = Inr (take 2 example_notices) \<and>
   key_of ascii_env (example_notices ! 2) = Inl (OtherError (u ''ValueError'')) \<and>
   collect_sort ascii_env example_notices = Inl (OtherError (u ''ValueError''))"
  by code_simp

section \<open>Properties of the refresh endpoints\<close>

lemma get_set_flag [simp]:
  "get_flag (set_flag s k b) k' = (if k' = k then b else get_flag s k')"
  by (cases k; cases k') simp_all

lemma set_flag_fields [simp]:
  "tested (set_flag s k b) = tested s" "setting (set_flag s k b) = setting s"
  "in_flight (set_flag s k b) = in_flight s"
  by (cases k; simp)+

lemma get_flag_upd [simp]:
  "get_flag (s\<lparr>tested := t\<rparr>) k = get_flag s k"
  "get_flag (s\<lparr>setting := t\<rparr>) k = get_flag s k"
  "get_flag (s\<lparr>in_flight := t\<rparr>) k = get_flag s k"
  by (cases k; simp)+

lemma guard_step:
  assumes d: "distinct (tested s @ setting s @ in_flight s)"
    and f: "\<And>k. get_flag s k = (k \<in> set (setting s) \<union> set (in_flight s))"
    and e: "case e of Test k \<Rightarrow> k \<notin> set (tested s) | SetFlag k \<Rightarrow> True | Start k \<Rightarrow> True | Finish k \<Rightarrow> True"
  shows "distinct (tested (step s e) @ setting (step s e) @ in_flight (step s e)) \<and>
         (\<forall>k. get_flag (step s e) k = (k \<in> set (setting (step s e)) \<union> set (in_flight (step s e))))"
proof (cases e)
  case (Test k)
  with d f e show ?thesis by auto
next
  case (SetFlag k)
  with d f show ?thesis by auto
next
  case (Start k)
  with d f show ?thesis by auto
next
  case (Finish k)
  with d f show ?thesis by auto
qed

lemma guard_run_from:
  "distinct (tested s @ setting s @ in_flight s) \<Longrightarrow>
   (\<forall>k. get_flag s k = (k \<in> set (setting s) \<union> set (in_flight s))) \<Longrightarrow>
   no_overlap s evs \<Longrightarrow>
   distinct (tested (run_from s evs) @ setting (run_from s evs) @ in_flight (run_from s evs)) \<and>
   (\<forall>k. get_flag (run_from s evs) k
          = (k \<in> set (setting (run_from s evs)) \<union> set (in_flight (run_from s evs))))"
proof (induction evs arbitrary: s)
  case Nil
  then show ?case by (simp add: run_from_def)
next
  case (Cons e es)
  from Cons.prems have e: "case e of Test k \<Rightarrow> k \<notin> set (tested s) | SetFlag k \<Rightarrow> True | Start k \<Rightarrow> True | Finish k \<Rightarrow> True"
    and n: "no_overlap (step s e) es" by simp_all
  from guard_step [of s e] Cons.prems(1,2) e
  have g: "distinct (tested (step s e) @ setting (step s e) @ in_flight (step s e))"
    "\<forall>k. get_flag (step s e) k = (k \<in> set (setting (step s e)) \<union> set (in_flight (step s e)))"
    by blast+
  from Cons.IH [OF g n] show ?case by (simp add: run_from_def)
qed

lemma guard_run:
  assumes "no_overlap initial_state evs"
  shows "distinct (tested (run evs) @ setting (run evs) @ in_flight (run evs))"
    and "get_flag (run evs) k = (k \<in> set (setting (run evs)) \<union> set (in_flight (run evs)))"
proof -
  have d: "distinct (tested initial_state @ setting initial_state @ in_flight initial_state)"
    by (simp add: initial_state_def)
  have f: "\<forall>k. get_flag initial_state k
             = (k \<in> set (setting initial_state) \<union> set (in_flight initial_state))"
  proof
    fix k show "get_flag initial_state k
             = (k \<in> set (setting initial_state) \<union> set (in_flight initial_state))"
      by (cases k) (simp_all add: initial_state_def)
  qed
  from guard_run_from [OF d f assms]
  show "distinct (tested (run evs) @ setting (run evs) @ in_flight (run evs))"
    and "get_flag (run evs) k = (k \<in> set (setting (run evs)) \<union> set (in_flight (run evs)))"
    unfolding run_def by blast+
qed

lemma refresh_noop:
  "get_flag s k \<Longrightarrow> k \<notin> set (tested s) \<Longrightarrow> k \<notin> set (setting s) \<Longrightarrow> refresh k s = s"
  by (simp add: refresh_def run_from_def)

text \<open>
  C9 (as amended). There is one guard flag per endpoint. In every state a handler that
  finds the flag of its endpoint set changes nothing. In every sequence of steps in which
  the handlers of an endpoint do not overlap, no endpoint has more than one job in
  flight, and a request to an endpoint whose job is in flight changes nothing. The guard
  says nothing about jobs of different endpoints, and nothing when two handlers of one
  endpoint overlap.
\<close>

theorem refresh_guard_per_endpoint:
  "(get_flag s k \<longrightarrow> step s (Test k) = s) \<and>
   (no_overlap initial_state evs \<longrightarrow>
      distinct (in_flight (run evs)) \<and>
      (k \<in> set (in_flight (run evs)) \<longrightarrow> refresh k (run evs) = run evs))"
proof -
  have a: "get_flag s k \<longrightarrow> step s (Test k) = s" by simp
  have b: "distinct (in_flight (run evs)) \<and>
           (k \<in> set (in_flight (run evs)) \<longrightarrow> refresh k (run evs) = run evs)"
    if n: "no_overlap initial_state evs"
  proof -
    note g = guard_run [OF n]
    from g(1) have d: "distinct (in_flight (run evs))" by simp
    have "refresh k (run evs) = run evs" if m: "k \<in> set (in_flight (run evs))"
    proof -
      from m g(2) [of k] have fl: "get_flag (run evs) k" by simp
      from m g(1) have t: "k \<notin> set (tested (run evs))" "k \<notin> set (setting (run evs))" by auto
      from refresh_noop [OF fl t] show ?thesis .
    qed
    with d show ?thesis by simp
  qed
  from a b show ?thesis by simp
qed

text \<open>An instance: a second request to \<^verbatim>\<open>/refresh\<close> while its job is in flight.\<close>

theorem refresh_guard_per_endpoint_witness:
  "get_flag (run [Test Ep_all, SetFlag Ep_all, Start Ep_all]) Ep_all \<and>
   step (run [Test Ep_all, SetFlag Ep_all, Start Ep_all]) (Test Ep_all)
     = run [Test Ep_all, SetFlag Ep_all, Start Ep_all] \<and>
   no_overlap initial_state [Test Ep_all, SetFlag Ep_all, Start Ep_all] \<and>
   distinct (in_flight (run [Test Ep_all, SetFlag Ep_all, Start Ep_all])) \<and>
   Ep_all \<in> set (in_flight (run [Test Ep_all, SetFlag Ep_all, Start Ep_all])) \<and>
   refresh Ep_all (run [Test Ep_all, SetFlag Ep_all, Start Ep_all])
     = run [Test Ep_all, SetFlag Ep_all, Start Ep_all]"
proof -
  have f: "get_flag (run [Test Ep_all, SetFlag Ep_all, Start Ep_all]) Ep_all"
    by (simp add: run_def run_from_def initial_state_def)
  have n: "no_overlap initial_state [Test Ep_all, SetFlag Ep_all, Start Ep_all]"
    by (simp add: initial_state_def)
  have m: "Ep_all \<in> set (in_flight (run [Test Ep_all, SetFlag Ep_all, Start Ep_all]))"
    by (simp add: run_def run_from_def initial_state_def)
  from refresh_guard_per_endpoint
         [of "run [Test Ep_all, SetFlag Ep_all, Start Ep_all]" Ep_all
             "[Test Ep_all, SetFlag Ep_all, Start Ep_all]"] f n m
  show ?thesis by simp
qed

text \<open>
  C9 (as stated) fails in two ways. While the job of \<^verbatim>\<open>/refresh\<close> is in flight, a request to
  \<^verbatim>\<open>/refresh/notices\<close> is not a no-op: it starts a second job, and both jobs run
  \<^verbatim>\<open>run_collection\<close>. And when two handlers of \<^verbatim>\<open>/refresh\<close> both test the flag before either
  sets it, both start a job.
\<close>

theorem refresh_guard_counterexample:
  "no_overlap initial_state
     [Test Ep_all, SetFlag Ep_all, Start Ep_all, Test Ep_notices, SetFlag Ep_notices, Start Ep_notices] \<and>
   in_flight (run [Test Ep_all, SetFlag Ep_all, Start Ep_all]) = [Ep_all] \<and>
   refresh Ep_notices (run [Test Ep_all, SetFlag Ep_all, Start Ep_all])
     \<noteq> run [Test Ep_all, SetFlag Ep_all, Start Ep_all] \<and>
   in_flight (run [Test Ep_all, SetFlag Ep_all, Start Ep_all,
                   Test Ep_notices, SetFlag Ep_notices, Start Ep_notices]) = [Ep_all, Ep_notices] \<and>
   runs_collection Ep_all \<and> runs_collection Ep_notices \<and>
   in_flight (run [Test Ep_all, Test Ep_all, SetFlag Ep_all, Start Ep_all,
                   SetFlag Ep_all, Start Ep_all]) = [Ep_all, Ep_all]"
  by (simp add: run_def run_from_def refresh_def initial_state_def)

end
